theory Spec2Isabelle
  imports Main "HOL-Library.Word" "HOL-Library.Char_ord" "HOL-Library.List_Lexorder"
begin

section \<open>The fetch-over-RPC bridge of denoflare\<close>

text \<open>
  The development follows the TypeScript module that defines \<open>packRequest\<close>,
  \<open>unpackRequest\<close>, \<open>packResponse\<close>, \<open>unpackResponse\<close>,
  \<open>makeBodyResolverOverRpc\<close> and the class \<open>Bodies\<close>.

  Conventions of the embedding:
  \<^item> \<open>undefined\<close> is \<open>None\<close>; a value that is present is \<open>Some\<close>;
  \<^item> a \<open>throw\<close> is the \<open>Inl\<close> branch of a sum, one constructor of \<open>error\<close> per
    \<open>throw\<close> statement of the module;
  \<^item> a method of \<open>Bodies\<close> takes the registry and returns it updated;
  \<^item> an \<open>async\<close> function is the function of its awaited result: the module runs on
    one cooperative task, and every theorem below is about calls made one after another.
\<close>

subsection \<open>Bytes, chunks and source streams\<close>

type_synonym byte = "8 word"

text \<open>A \<open>Uint8Array\<close> chunk.\<close>

type_synonym chunk = "byte list"

text \<open>
  A \<open>ReadableStream<Uint8Array> \<close> that the registry reads from is modelled by the chunks
  it still has to deliver, in order. It is a stream object of its own, not locked and not
  read by anybody else: registering one stream object twice is outside the model, as it is
  outside the contract of the registry.
\<close>

type_synonym stream = "chunk list"

text \<open>\<open>ReadableStreamReadResult<Uint8Array>\<close>: \<open>{ value, done }\<close>.\<close>

record chunk_result =
  "value" :: "chunk option"
  "done" :: bool

text \<open>
  A \<open>ReadableStreamDefaultReader\<close> over such a stream: \<open>getReader\<close> hands out the
  cursor, \<open>read\<close> takes the next chunk, or reports the end with no value.
\<close>

type_synonym reader = "chunk list"

definition getReader :: "stream \<Rightarrow> reader" where
  "getReader body = body"

fun read :: "reader \<Rightarrow> chunk_result \<times> reader" where
  "read [] = (\<lparr>value = None, done = True\<rparr>, [])"
| "read (c # cs) = (\<lparr>value = Some c, done = False\<rparr>, cs)"

subsection \<open>Errors\<close>

text \<open>
  The module throws plain \<open>Error\<close> objects; the constructors are its \<open>throw\<close>
  statements, with the part of the message that varies:
  \<^item> \<open>PackRequestInit opt\<close>: \<^verbatim>\<open>throw new Error(`packRequest: init.<opt>`)\<close>, and for
    \<open>redirect\<close> \<^verbatim>\<open>throw new Error(`packRequest: init.redirect ${init.redirect}`)\<close>,
    the policy kept in the second field;
  \<^item> \<open>PackRequestImplement\<close>: \<^verbatim>\<open>throw new Error(`packRequest: implement info=...`)\<close>;
  \<^item> \<open>PackResponseBodyInit\<close>: \<^verbatim>\<open>throw new Error(`packResponse: DenoflareResponse bodyInit=...`)\<close>;
  \<^item> \<open>BadBodyId n\<close>: \<^verbatim>\<open>throw new Error(`Bad bodyId: ${bodyId}`)\<close>.

  The specification names these conditions \<open>UnsupportedRequestOptionError\<close>,
  \<open>UnsupportedRequestShapeError\<close>, \<open>MalformedSyntheticBodyError\<close> and
  \<open>UnknownBodyError\<close>, in this order.
\<close>

datatype error =
    PackRequestInit string "string option"
  | PackRequestImplement
  | PackResponseBodyInit
  | BadBodyId nat

subsection \<open>The body registry: class Bodies\<close>

text \<open>
  \<open>bodies\<close> and \<open>readers\<close> are the two \<open>Map\<close>s of the class, \<open>nextBodyId\<close> its
  counter. The counter is a natural number: a JavaScript number holds every integer
  below \<open>2^53\<close> exactly, more than the registrations of a process lifetime.
\<close>

record Bodies =
  bodies :: "nat \<rightharpoonup> stream"
  readers :: "nat \<rightharpoonup> reader"
  nextBodyId :: nat

definition new_Bodies :: Bodies where
  "new_Bodies = \<lparr>bodies = Map.empty, readers = Map.empty, nextBodyId = 1\<rparr>"

definition computeBodyId :: "Bodies \<Rightarrow> stream option \<Rightarrow> nat option \<times> Bodies" where
  "computeBodyId this body =
     (case body of
        None \<Rightarrow> (None, this)
      | Some s \<Rightarrow>
          (let bodyId = nextBodyId this;
               this1 = this\<lparr>nextBodyId := nextBodyId this + 1\<rparr>;
               this2 = this1\<lparr>bodies := (bodies this1)(bodyId \<mapsto> s)\<rparr>
           in (Some bodyId, this2)))"

text \<open>
  \<open>readBodyChunk\<close>. The reader object is shared between the local variable and the
  \<open>readers\<close> map, so the map sees the cursor advance: the model writes the advanced
  reader back. The entry of \<open>bodies\<close> is only looked up while no reader is cached.
\<close>

definition readBodyChunk :: "Bodies \<Rightarrow> nat \<Rightarrow> (error + chunk_result) \<times> Bodies" where
  "readBodyChunk this bodyId =
     (case (case readers this bodyId of
              Some reader \<Rightarrow> Inr (reader, this)
            | None \<Rightarrow>
                (case bodies this bodyId of
                   None \<Rightarrow> Inl (BadBodyId bodyId)
                 | Some body \<Rightarrow>
                     (let reader = getReader body
                      in Inr (reader, this\<lparr>readers := (readers this)(bodyId \<mapsto> reader)\<rparr>)))) of
        Inl e \<Rightarrow> (Inl e, this)
      | Inr (reader, this1) \<Rightarrow>
          (let (result, reader') = read reader;
               this2 = this1\<lparr>readers := (readers this1)(bodyId \<mapsto> reader')\<rparr>
           in if done result
              then (Inr result,
                    this2\<lparr>readers := (readers this2)(bodyId := None),
                           bodies := (bodies this2)(bodyId := None)\<rparr>)
              else (Inr result, this2)))"

subsection \<open>Runs of the registry\<close>

text \<open>
  What the rest of the process does with one registry during its lifetime: it registers
  bodies (absent ones too) and it pulls chunks, in any order. A failed pull is an error
  reply; the registry lives on.
\<close>

datatype op = Register "stream option" | Pull nat

datatype outcome = Registered "nat option" | Pulled "error + chunk_result"

fun exec :: "Bodies \<Rightarrow> op \<Rightarrow> outcome \<times> Bodies" where
  "exec b (Register body) = (let (r, b') = computeBodyId b body in (Registered r, b'))"
| "exec b (Pull bodyId) = (let (r, b') = readBodyChunk b bodyId in (Pulled r, b'))"

fun run :: "Bodies \<Rightarrow> op list \<Rightarrow> outcome list \<times> Bodies" where
  "run b [] = ([], b)"
| "run b (x # xs) =
     (let (r, b') = exec b x; (rs, b'') = run b' xs in (r # rs, b''))"

text \<open>The identifiers a run handed out, in the order of the calls.\<close>

fun identifiers :: "outcome list \<Rightarrow> nat list" where
  "identifiers [] = []"
| "identifiers (Registered (Some i) # rs) = i # identifiers rs"
| "identifiers (_ # rs) = identifiers rs"

text \<open>The calls of a run that registered a body that is present.\<close>

fun present :: "op list \<Rightarrow> nat" where
  "present [] = 0"
| "present (Register (Some s) # xs) = Suc (present xs)"
| "present (_ # xs) = present xs"

text \<open>The replies to the pulls for one identifier, in the order of the calls.\<close>

fun pulls_of :: "nat \<Rightarrow> op list \<Rightarrow> outcome list \<Rightarrow> (error + chunk_result) list" where
  "pulls_of i (Pull j # xs) (Pulled r # rs) =
     (if j = i then r # pulls_of i xs rs else pulls_of i xs rs)"
| "pulls_of i (x # xs) (r # rs) = pulls_of i xs rs"
| "pulls_of i _ _ = []"

text \<open>
  What the specification promises for the pulls of a body with chunks \<open>src\<close>: each chunk
  in order, then the terminal result, then the unknown-body error for ever. \<open>n\<close> is the
  number of pulls made.
\<close>

definition pull_replies :: "nat \<Rightarrow> stream \<Rightarrow> nat \<Rightarrow> (error + chunk_result) list" where
  "pull_replies i src n =
     take n (map (\<lambda>c. Inr \<lparr>value = Some c, done = False\<rparr>) src
             @ [Inr \<lparr>value = None, done = True\<rparr>]
             @ replicate n (Inl (BadBodyId i)))"

text \<open>The number of pulls for one identifier in a list of calls.\<close>

definition pull_count :: "nat \<Rightarrow> op list \<Rightarrow> nat" where
  "pull_count i xs = length (filter (\<lambda>x. x = Pull i) xs)"

text \<open>
  The chunks the registry still holds for an identifier: those of the cached reader when
  there is one, those of the registered stream otherwise.
\<close>

definition remaining :: "Bodies \<Rightarrow> nat \<Rightarrow> stream option" where
  "remaining b i = (case readers b i of Some r \<Rightarrow> Some r | None \<Rightarrow> bodies b i)"

text \<open>The replies to \<open>n\<close> pulls when \<open>r\<close> is what the registry holds for the identifier.\<close>

definition replies_from :: "nat \<Rightarrow> stream option \<Rightarrow> nat \<Rightarrow> (error + chunk_result) list" where
  "replies_from i r n =
     (case r of
        Some src \<Rightarrow> pull_replies i src n
      | None \<Rightarrow> replicate n (Inl (BadBodyId i)))"

text \<open>What the registry holds after \<open>n\<close> pulls when it held \<open>r\<close>.\<close>

definition remaining_after :: "stream option \<Rightarrow> nat \<Rightarrow> stream option" where
  "remaining_after r n =
     (case r of
        None \<Rightarrow> None
      | Some src \<Rightarrow> if n \<le> length src then Some (drop n src) else None)"

subsection \<open>Platform values the module works with: Headers and parseInt\<close>

text \<open>
  A \<open>Headers\<close> object is its header list, the (name, value) pairs in the order they were
  appended. Names match without regard to ASCII case. The model follows the Fetch
  standard for what the module calls:
  \<^item> \<open>new Headers(init)\<close> appends the pairs of \<open>init\<close> in order;
  \<^item> \<open>get(name)\<close> is the values of the headers of that name, joined with comma and
    space, or \<open>null\<close> when there is none;
  \<^item> the iteration \<open>entries()\<close> goes through the lower-cased names in sorted order,
    without repetition, each with its combined value.
  Header names and values are taken as valid and already normalised: the \<open>TypeError\<close> of
  an invalid name and the special treatment of \<open>set-cookie\<close> are outside the model.
\<close>

type_synonym Headers = "(string \<times> string) list"

definition byteLowerCase :: "string \<Rightarrow> string" where
  "byteLowerCase s =
     map (\<lambda>c. if CHR ''A'' \<le> c \<and> c \<le> CHR ''Z'' then char_of (of_char c + (32::nat)) else c) s"

definition Headers_append :: "Headers \<Rightarrow> string \<Rightarrow> string \<Rightarrow> Headers" where
  "Headers_append h name v = h @ [(name, v)]"

definition new_Headers :: "(string \<times> string) list \<Rightarrow> Headers" where
  "new_Headers init = fold (\<lambda>(name, v) h. Headers_append h name v) init []"

fun join :: "string \<Rightarrow> string list \<Rightarrow> string" where
  "join sep [] = []"
| "join sep [x] = x"
| "join sep (x # y # ys) = x @ sep @ join sep (y # ys)"

definition header_values :: "Headers \<Rightarrow> string \<Rightarrow> string list" where
  "header_values h name =
     map snd (filter (\<lambda>(k, v). byteLowerCase k = byteLowerCase name) h)"

definition Headers_get :: "Headers \<Rightarrow> string \<Rightarrow> string option" where
  "Headers_get h name =
     (let vs = header_values h name
      in if vs = [] then None else Some (join '', '' vs))"

definition header_names :: "Headers \<Rightarrow> string list" where
  "header_names h = sort (remdups (map (\<lambda>(k, v). byteLowerCase k) h))"

definition Headers_entries :: "Headers \<Rightarrow> (string \<times> string) list" where
  "Headers_entries h = map (\<lambda>name. (name, join '', '' (header_values h name))) (header_names h)"

text \<open>
  \<open>parseInt(string)\<close> with no radix, after ECMAScript: leading white space is skipped,
  a sign is read, a prefix \<open>0x\<close> or \<open>0X\<close> selects radix 16 (radix 10 otherwise), and
  the longest run of digits of the radix is the number; with no digit the result is
  \<open>NaN\<close>, which is \<open>None\<close> here. The characters are bytes, as those of a header value.
  The result is the exact integer: the comparisons the module makes with it give the same
  answer on the number JavaScript rounds it to, for a threshold below \<open>2^53\<close>.
\<close>

definition isWhiteSpace :: "char \<Rightarrow> bool" where
  "isWhiteSpace c \<longleftrightarrow>
     c \<in> set [CHR 0x09, CHR 0x0A, CHR 0x0B, CHR 0x0C, CHR 0x0D, CHR 0x20, CHR 0xA0]"

definition digitValue :: "char \<Rightarrow> nat option" where
  "digitValue c =
     (if CHR ''0'' \<le> c \<and> c \<le> CHR ''9'' then Some (of_char c - 48)
      else if CHR ''a'' \<le> c \<and> c \<le> CHR ''z'' then Some (of_char c - 87)
      else if CHR ''A'' \<le> c \<and> c \<le> CHR ''Z'' then Some (of_char c - 55)
      else None)"

definition isDigit :: "nat \<Rightarrow> char \<Rightarrow> bool" where
  "isDigit R c = (case digitValue c of None \<Rightarrow> False | Some d \<Rightarrow> d < R)"

definition parseInt :: "string \<Rightarrow> int option" where
  "parseInt inputString =
     (let S = dropWhile isWhiteSpace inputString;
          sign = (if take 1 S = ''-'' then - 1 else 1 :: int);
          S = (if take 1 S = ''+'' \<or> take 1 S = ''-'' then drop 1 S else S);
          stripPrefix = (take 2 S = ''0x'' \<or> take 2 S = ''0X'');
          R = (if stripPrefix then 16 else 10 :: nat);
          S = (if stripPrefix then drop 2 S else S);
          Z = takeWhile (isDigit R) S
      in if Z = [] then None
         else Some (sign * int (foldl (\<lambda>n c. n * R + the (digitValue c)) 0 Z)))"

subsection \<open>Requests, responses and their packed forms\<close>

text \<open>
  The records carry the fields the module reads or writes. Several interfaces of the module
  share field names (\<open>method\<close>, \<open>headers\<close>, \<open>body\<close>, \<open>bodyId\<close>); the fields of a record
  are prefixed with the initials of its type: \<open>rq\<close> for \<open>Request\<close>, \<open>ri\<close> for
  \<open>RequestInit\<close>, \<open>pq\<close> for \<open>PackedRequest\<close>, \<open>rs\<close> for \<open>Response\<close>, \<open>ps\<close> for
  \<open>PackedResponse\<close>.

  \<open>BodyInit\<close> is what a body can be made from; \<open>'s\<close> is the type of the streams.
\<close>

datatype 's BodyInit = Text string | Bytes "byte list" | Stream 's | OtherBody

text \<open>
  A \<open>Request\<close> of the platform, as the fields the module reads: its method, its URL
  (serialised), its headers and its body.
\<close>

record 's Request =
  rq_method :: string
  rq_url :: string
  rq_headers :: Headers
  rq_body :: "'s option"

text \<open>A value that can be \<open>null\<close>.\<close>

datatype 'a nullable = Null | Val 'a

text \<open>
  \<open>RequestInit\<close>, the options bag of \<open>fetch\<close>. A field is \<open>None\<close> when it is
  \<open>undefined\<close>; \<open>null\<close> is a value. The abort signal is modelled by its \<open>aborted\<close> flag;
  \<open>window\<close> can only be set to \<open>null\<close>.
\<close>

record RequestInit =
  ri_method :: "string option"
  ri_headers :: "(string \<times> string) list option"
  ri_body :: "stream BodyInit nullable option"
  ri_cache :: "string option"
  ri_credentials :: "string option"
  ri_integrity :: "string option"
  ri_keepalive :: "bool option"
  ri_mode :: "string option"
  ri_redirect :: "string option"
  ri_referrer :: "string option"
  ri_referrerPolicy :: "string option"
  ri_signal :: "bool nullable option"
  ri_window :: "unit nullable option"

text \<open>\<open>RequestInfo = Request | string\<close>.\<close>

datatype RequestInfo = InfoRequest "stream Request" | InfoString string

record PackedRequest =
  pq_method :: string
  pq_url :: string
  pq_headers :: "(string \<times> string) list"
  pq_bodyId :: "nat option"

text \<open>
  The module reads \<open>status\<close>, \<open>headers\<close>, \<open>body\<close> and \<open>arrayBuffer()\<close> of a
  \<open>Response\<close>.

  Modelled from the spec: the class \<open>DenoflareResponse\<close> of \<open>denoflare_response.ts\<close>,
  which this development does not have. The specification calls it the specially tagged
  synthetic response, whose declared body initializer is known exactly. \<open>rs_bodyInit\<close> is
  \<open>Some bodyInit\<close> when \<open>DenoflareResponse.is(response)\<close> holds, and \<open>None\<close> for any
  other response.
\<close>

record Response =
  rs_status :: int
  rs_headers :: Headers
  rs_body :: "stream option"
  rs_bodyInit :: "stream BodyInit option"

text \<open>
  \<open>response.arrayBuffer()\<close> reads the body to its end: the bytes of all chunks; no bytes
  for a \<open>null\<close> body.
\<close>

definition arrayBuffer :: "Response \<Rightarrow> byte list" where
  "arrayBuffer response = (case rs_body response of None \<Rightarrow> [] | Some s \<Rightarrow> concat s)"

record PackedResponse =
  ps_status :: int
  ps_headers :: "(string \<times> string) list"
  ps_bodyId :: "nat option"
  ps_bodyText :: "string option"
  ps_bodyBytes :: "byte list option"


subsection \<open>The constructors of the platform: new Request and new Response\<close>

text \<open>
  Unpacking ends in a constructor of the platform, which checks and normalises what it is
  given and can throw. What is thrown while unpacking is the error of the caller's body
  resolver, of the caller's own type \<open>'e\<close>, or a \<open>TypeError\<close> or \<open>RangeError\<close> of a
  constructor.
\<close>

datatype 'e failure = ResolverThrew 'e | TypeError | RangeError

text \<open>
  \<open>new Request(url, { method, headers, body })\<close>, after the Fetch standard:
  \<^item> the URL string is parsed and the request carries the serialisation of the URL; the
    constructor throws a \<open>TypeError\<close> for a string that does not parse (a relative one,
    with no base) and for a URL with credentials. What the constructor makes of the string
    is the parameter \<open>parseURL\<close>: the serialised URL, or \<open>None\<close> where it throws;
  \<^item> a method that is not a token, or that is \<open>CONNECT\<close>, \<open>TRACE\<close> or \<open>TRACK\<close> in any
    case, is a \<open>TypeError\<close>; a method that is \<open>DELETE\<close>, \<open>GET\<close>, \<open>HEAD\<close>, \<open>OPTIONS\<close>,
    \<open>POST\<close> or \<open>PUT\<close> in any case is put in upper case; any other is kept;
  \<^item> a body with the method \<open>GET\<close> or \<open>HEAD\<close> is a \<open>TypeError\<close>.
  The headers given are a \<open>Headers\<close> object, the body a stream or \<open>undefined\<close>.
\<close>

definition byteUpperCase :: "string \<Rightarrow> string" where
  "byteUpperCase s =
     map (\<lambda>c. if CHR ''a'' \<le> c \<and> c \<le> CHR ''z'' then char_of (of_char c - (32::nat)) else c) s"

definition isTokenChar :: "char \<Rightarrow> bool" where
  "isTokenChar c \<longleftrightarrow>
     (CHR ''0'' \<le> c \<and> c \<le> CHR ''9'') \<or> (CHR ''a'' \<le> c \<and> c \<le> CHR ''z'')
     \<or> (CHR ''A'' \<le> c \<and> c \<le> CHR ''Z'')
     \<or> c \<in> set [CHR 0x21, CHR 0x23, CHR 0x24, CHR 0x25, CHR 0x26, CHR 0x27, CHR 0x2A, CHR 0x2B,
                 CHR 0x2D, CHR 0x2E, CHR 0x5E, CHR 0x5F, CHR 0x60, CHR 0x7C, CHR 0x7E]"

definition isToken :: "string \<Rightarrow> bool" where
  "isToken s \<longleftrightarrow> s \<noteq> [] \<and> list_all isTokenChar s"

definition normalizeMethod :: "string \<Rightarrow> string option" where
  "normalizeMethod m =
     (if \<not> isToken m then None
      else if byteUpperCase m \<in> set [''CONNECT'', ''TRACE'', ''TRACK''] then None
      else if byteUpperCase m \<in> set [''DELETE'', ''GET'', ''HEAD'', ''OPTIONS'', ''POST'', ''PUT'']
        then Some (byteUpperCase m)
      else Some m)"

definition new_Request ::
  "(string \<Rightarrow> string option) \<Rightarrow> string \<Rightarrow> string \<Rightarrow> Headers \<Rightarrow> 's option
     \<Rightarrow> 'e failure + 's Request" where
  "new_Request parseURL url m headers body =
     (case parseURL url of
        None \<Rightarrow> Inl TypeError
      | Some parsedURL \<Rightarrow>
          (case normalizeMethod m of
             None \<Rightarrow> Inl TypeError
           | Some method \<Rightarrow>
               if body \<noteq> None \<and> (method = ''GET'' \<or> method = ''HEAD'') then Inl TypeError
               else Inr \<lparr>rq_method = method, rq_url = parsedURL, rq_headers = headers,
                         rq_body = body\<rparr>))"



subsection \<open>The wire codec\<close>

text \<open>
  \<open>packResponse\<close>. \<open>Constants.MAX_CONTENT_LENGTH_TO_PACK_OVER_RPC\<close> is a constant of
  \<open>constants.ts\<close>, which this development does not have: it is the first parameter.
  \<open>contentLength\<close> is \<open>parseInt(response.headers.get('content-length') || '-1')\<close>: the
  empty string is falsy, as \<open>null\<close> is. A comparison with \<open>NaN\<close> is false.
\<close>

definition contentLength :: "Response \<Rightarrow> int option" where
  "contentLength response =
     parseInt (case Headers_get (rs_headers response) ''content-length'' of
                 None \<Rightarrow> ''-1''
               | Some v \<Rightarrow> if v = [] then ''-1'' else v)"

definition packResponse ::
  "int \<Rightarrow> Response \<Rightarrow> Bodies \<Rightarrow> (error + PackedResponse) \<times> Bodies" where
  "packResponse MAX_CONTENT_LENGTH_TO_PACK_OVER_RPC response bodies0 =
     (let status = rs_status response;
          headers = Headers_entries (rs_headers response)
      in case rs_bodyInit response of
           Some (Text bodyText) \<Rightarrow>
             (Inr \<lparr>ps_status = status, ps_headers = headers, ps_bodyId = None,
                   ps_bodyText = Some bodyText, ps_bodyBytes = None\<rparr>, bodies0)
         | Some (Stream s) \<Rightarrow>
             (let (bodyId, bodies1) = computeBodyId bodies0 (Some s)
              in (Inr \<lparr>ps_status = status, ps_headers = headers, ps_bodyId = bodyId,
                       ps_bodyText = None, ps_bodyBytes = None\<rparr>, bodies1))
         | Some _ \<Rightarrow> (Inl PackResponseBodyInit, bodies0)
         | None \<Rightarrow>
             (if (case contentLength response of
                    None \<Rightarrow> False
                  | Some n \<Rightarrow> n > - 1 \<and> n \<le> MAX_CONTENT_LENGTH_TO_PACK_OVER_RPC)
              then (Inr \<lparr>ps_status = status, ps_headers = headers, ps_bodyId = None,
                        ps_bodyText = None, ps_bodyBytes = Some (arrayBuffer response)\<rparr>,
                    bodies0)
              else (let (bodyId, bodies1) = computeBodyId bodies0 (rs_body response)
                    in (Inr \<lparr>ps_status = status, ps_headers = headers, ps_bodyId = bodyId,
                             ps_bodyText = None, ps_bodyBytes = None\<rparr>, bodies1))))"

text \<open>
  A \<open>BodyResolver\<close> is a function of the caller's; it may throw, with an error of the
  caller's own type \<open>'e\<close>. \<open>unpackResponse\<close> makes the headers, selects the body (calling
  the resolver for a body reference), and gives both to \<open>new Response\<close>.
\<close>

type_synonym ('e, 's) BodyResolver = "nat \<Rightarrow> 'e + 's"


text \<open>
  The checks of \<open>packRequest\<close> on the options bag, in the order of the source: the first
  option that is set throws.
\<close>

definition checkInit :: "RequestInit \<Rightarrow> error option" where
  "checkInit init =
     (if ri_body init \<noteq> None then Some (PackRequestInit ''body'' None)
      else if ri_cache init \<noteq> None then Some (PackRequestInit ''cache'' None)
      else if ri_credentials init \<noteq> None then Some (PackRequestInit ''credentials'' None)
      else if ri_integrity init \<noteq> None then Some (PackRequestInit ''integrity'' None)
      else if ri_keepalive init \<noteq> None then Some (PackRequestInit ''keepalive'' None)
      else if ri_mode init \<noteq> None then Some (PackRequestInit ''mode'' None)
      else if ri_redirect init \<noteq> None \<and> ri_redirect init \<noteq> Some ''follow''
        then Some (PackRequestInit ''redirect'' (ri_redirect init))
      else if ri_referrer init \<noteq> None then Some (PackRequestInit ''referrer'' None)
      else if ri_referrerPolicy init \<noteq> None then Some (PackRequestInit ''referrerPolicy'' None)
      else if ri_signal init \<noteq> None then Some (PackRequestInit ''signal'' None)
      else if ri_window init \<noteq> None then Some (PackRequestInit ''window'' None)
      else None)"

definition packRequest ::
  "RequestInfo \<Rightarrow> RequestInit option \<Rightarrow> Bodies \<Rightarrow> (error + PackedRequest) \<times> Bodies" where
  "packRequest info init bodies0 =
     (case (info, init) of
        (InfoRequest r, None) \<Rightarrow>
          (let headers = Headers_entries (rq_headers r);
               (bodyId, bodies1) = computeBodyId bodies0 (rq_body r)
           in (Inr \<lparr>pq_method = rq_method r, pq_url = rq_url r, pq_headers = headers,
                    pq_bodyId = bodyId\<rparr>, bodies1))
      | (InfoString url, None) \<Rightarrow>
          (Inr \<lparr>pq_method = ''GET'', pq_url = url, pq_headers = [], pq_bodyId = None\<rparr>, bodies0)
      | (InfoString url, Some i) \<Rightarrow>
          (let method = (case ri_method i of Some m \<Rightarrow> m | None \<Rightarrow> ''GET'');
               headers = (case ri_headers i of
                            Some h \<Rightarrow> Headers_entries (new_Headers h)
                          | None \<Rightarrow> [])
           in case checkInit i of
                Some e \<Rightarrow> (Inl e, bodies0)
              | None \<Rightarrow>
                  (Inr \<lparr>pq_method = method, pq_url = url, pq_headers = headers,
                        pq_bodyId = None\<rparr>, bodies0))
      | (InfoRequest r, Some i) \<Rightarrow> (Inl PackRequestImplement, bodies0))"

text \<open>
  \<open>unpackRequest\<close>. The URL parser of the platform, which \<open>new Request\<close> goes through, is
  the first parameter.
\<close>

definition unpackRequest ::
  "(string \<Rightarrow> string option) \<Rightarrow> PackedRequest \<Rightarrow> ('e, 's) BodyResolver
     \<Rightarrow> 'e failure + 's Request" where
  "unpackRequest parseURL packedRequest bodyResolver =
     (let headers = new_Headers (pq_headers packedRequest)
      in case (case pq_bodyId packedRequest of
                 None \<Rightarrow> Inr None
               | Some bodyId \<Rightarrow>
                   (case bodyResolver bodyId of
                      Inl e \<Rightarrow> Inl (ResolverThrew e)
                    | Inr s \<Rightarrow> Inr (Some s))) of
           Inl e \<Rightarrow> Inl e
         | Inr body \<Rightarrow>
             new_Request parseURL (pq_url packedRequest) (pq_method packedRequest) headers body)"

text \<open>
  The options of a bag that the specification lists as unsupported and that the bag sets,
  in the order of the specification's list.
\<close>

definition unsupported_options :: "RequestInit \<Rightarrow> string list" where
  "unsupported_options init =
     (if ri_body init \<noteq> None then [''body''] else [])
     @ (if ri_cache init \<noteq> None then [''cache''] else [])
     @ (if ri_credentials init \<noteq> None then [''credentials''] else [])
     @ (if ri_integrity init \<noteq> None then [''integrity''] else [])
     @ (if ri_keepalive init \<noteq> None then [''keepalive''] else [])
     @ (if ri_mode init \<noteq> None then [''mode''] else [])
     @ (if ri_redirect init \<noteq> None \<and> ri_redirect init \<noteq> Some ''follow'' then [''redirect''] else [])
     @ (if ri_referrer init \<noteq> None then [''referrer''] else [])
     @ (if ri_referrerPolicy init \<noteq> None then [''referrerPolicy''] else [])
     @ (if ri_signal init \<noteq> None then [''signal''] else [])
     @ (if ri_window init \<noteq> None then [''window''] else [])"

subsection \<open>The stream of makeBodyResolverOverRpc\<close>

text \<open>
  \<open>makeBodyResolverOverRpc(channel)\<close> returns, for a body id, a
  \<open>new ReadableStream({ start, pull, cancel })\<close> with no queuing strategy. What the
  module writes is the three callbacks; when they run is decided by the platform's
  stream. The stream is modelled after the Streams standard: a default controller with
  the default strategy (high-water mark 1, every chunk of size 1), its internal slots
  \<open>state\<close>, \<open>queue\<close>, \<open>started\<close>, \<open>closeRequested\<close>, \<open>pulling\<close> and \<open>pullAgain\<close>, the
  number of pending read requests of its reader, and what the reads of the local consumer
  have been answered with (\<open>delivered\<close>). The channel is seen through \<open>sent\<close>, the body
  ids of the \<open>read-body-chunk\<close> requests sent so far. Cancelling is not modelled
  (\<open>cancel\<close> only logs).
\<close>

datatype stream_state = Readable | Closed | Errored

datatype read_outcome = Fulfilled chunk_result | Rejected

record rpc_stream =
  bodyId :: nat
  sent :: "nat list"
  state :: stream_state
  queue :: "chunk list"
  started :: bool
  closeRequested :: bool
  pulling :: bool
  pullAgain :: bool
  readRequests :: nat
  delivered :: "read_outcome list"

text \<open>
  The stream as constructed. \<open>start\<close> does nothing; the stream counts as started when
  the promise of its result is fulfilled, which is an event of its own below.
\<close>

definition makeBodyResolverOverRpc :: "nat \<Rightarrow> rpc_stream" where
  "makeBodyResolverOverRpc i =
     \<lparr>bodyId = i, sent = [], state = Readable, queue = [], started = False,
      closeRequested = False, pulling = False, pullAgain = False, readRequests = 0,
      delivered = []\<rparr>"

text \<open>
  The \<open>pull\<close> callback up to its \<open>await\<close>: it sends one \<open>read-body-chunk\<close> request with
  the body id.
\<close>

definition pull_send :: "rpc_stream \<Rightarrow> rpc_stream" where
  "pull_send s = s\<lparr>sent := sent s @ [bodyId s]\<rparr>"

text \<open>
  The operations of the standard's default controller that the callbacks and the reader
  go through: \<open>ReadableStreamDefaultControllerCanCloseOrEnqueue\<close>,
  \<open>ShouldCallPull\<close> (a pending read request, or a positive desired size),
  \<open>CallPullIfNeeded\<close>, \<open>ReadableStreamClose\<close>, \<open>ReadableStreamDefaultControllerError\<close>,
  and the methods \<open>enqueue\<close> and \<open>close\<close> of the controller, which throw (\<open>None\<close>) on a
  stream that can no longer take chunks.
\<close>

definition canCloseOrEnqueue :: "rpc_stream \<Rightarrow> bool" where
  "canCloseOrEnqueue s \<longleftrightarrow> \<not> closeRequested s \<and> state s = Readable"

definition highWaterMark :: nat where
  "highWaterMark = 1"

definition shouldCallPull :: "rpc_stream \<Rightarrow> bool" where
  "shouldCallPull s \<longleftrightarrow>
     canCloseOrEnqueue s \<and> started s \<and> (readRequests s > 0 \<or> length (queue s) < highWaterMark)"

definition callPullIfNeeded :: "rpc_stream \<Rightarrow> rpc_stream" where
  "callPullIfNeeded s =
     (if \<not> shouldCallPull s then s
      else if pulling s then s\<lparr>pullAgain := True\<rparr>
      else pull_send (s\<lparr>pulling := True\<rparr>))"

definition streamClose :: "rpc_stream \<Rightarrow> rpc_stream" where
  "streamClose s =
     s\<lparr>state := Closed,
       delivered := delivered s @ replicate (readRequests s) (Fulfilled \<lparr>value = None, done = True\<rparr>),
       readRequests := 0\<rparr>"

definition controllerError :: "rpc_stream \<Rightarrow> rpc_stream" where
  "controllerError s =
     (if state s \<noteq> Readable then s
      else s\<lparr>queue := [], state := Errored,
             delivered := delivered s @ replicate (readRequests s) Rejected,
             readRequests := 0\<rparr>)"

definition controllerEnqueue :: "rpc_stream \<Rightarrow> chunk \<Rightarrow> rpc_stream option" where
  "controllerEnqueue s c =
     (if \<not> canCloseOrEnqueue s then None
      else Some (callPullIfNeeded
        (if readRequests s > 0
         then s\<lparr>readRequests := readRequests s - 1,
                delivered := delivered s @ [Fulfilled \<lparr>value = Some c, done = False\<rparr>]\<rparr>
         else s\<lparr>queue := queue s @ [c]\<rparr>)))"

definition controllerClose :: "rpc_stream \<Rightarrow> rpc_stream option" where
  "controllerClose s =
     (if \<not> canCloseOrEnqueue s then None
      else Some (let s1 = s\<lparr>closeRequested := True\<rparr>
                 in if queue s1 = [] then streamClose s1 else s1))"

text \<open>
  The \<open>pull\<close> callback after its \<open>await\<close>, with the reply \<open>{ value, done }\<close>:
  \<^verbatim>\<open>if (value !== undefined) controller.enqueue(value); if (done) controller.close();\<close>
\<close>

definition pull_resume :: "rpc_stream \<Rightarrow> chunk_result \<Rightarrow> rpc_stream option" where
  "pull_resume s r =
     (case (case value r of None \<Rightarrow> Some s | Some v \<Rightarrow> controllerEnqueue s v) of
        None \<Rightarrow> None
      | Some s1 \<Rightarrow> if done r then controllerClose s1 else Some s1)"

text \<open>
  What the controller does when the promise of \<open>pull\<close> is fulfilled.
\<close>

definition pullFulfilled :: "rpc_stream \<Rightarrow> rpc_stream" where
  "pullFulfilled s =
     (let s1 = s\<lparr>pulling := False\<rparr>
      in if pullAgain s1 then callPullIfNeeded (s1\<lparr>pullAgain := False\<rparr>) else s1)"

text \<open>
  \<open>reader.read()\<close> of the local consumer.
\<close>

definition readerRead :: "rpc_stream \<Rightarrow> rpc_stream" where
  "readerRead s =
     (case state s of
        Closed \<Rightarrow> s\<lparr>delivered := delivered s @ [Fulfilled \<lparr>value = None, done = True\<rparr>]\<rparr>
      | Errored \<Rightarrow> s\<lparr>delivered := delivered s @ [Rejected]\<rparr>
      | Readable \<Rightarrow>
          (case queue s of
             c # cs \<Rightarrow>
               (let s1 = s\<lparr>queue := cs\<rparr>;
                    s2 = (if closeRequested s1 \<and> cs = [] then streamClose s1
                          else callPullIfNeeded s1)
                in s2\<lparr>delivered := delivered s2 @ [Fulfilled \<lparr>value = Some c, done = False\<rparr>]\<rparr>)
           | [] \<Rightarrow> callPullIfNeeded (s\<lparr>readRequests := readRequests s + 1\<rparr>)))"

text \<open>
  What happens to a stream: the start promise is fulfilled, the local consumer asks for a
  chunk, the channel answers the request in flight with a chunk result, or the channel
  fails it. A reply with no request in flight does not happen; the model ignores it. A
  \<open>pull\<close> that throws or whose request fails errors the stream.
\<close>

datatype event = StartFulfilled | ReadRequest | ChannelReply chunk_result | ChannelFailure

fun step :: "rpc_stream \<Rightarrow> event \<Rightarrow> rpc_stream" where
  "step s StartFulfilled =
     (if started s then s else callPullIfNeeded (s\<lparr>started := True\<rparr>))"
| "step s ReadRequest = readerRead s"
| "step s (ChannelReply r) =
     (if \<not> pulling s then s
      else case pull_resume s r of
             None \<Rightarrow> controllerError s
           | Some s1 \<Rightarrow> pullFulfilled s1)"
| "step s ChannelFailure =
     (if \<not> pulling s then s else controllerError s)"

text \<open>
  The stream after a sequence of events, and the number of local read requests among
  them.
\<close>

definition run_stream :: "rpc_stream \<Rightarrow> event list \<Rightarrow> rpc_stream" where
  "run_stream s evs = foldl step s evs"

definition reads :: "event list \<Rightarrow> nat" where
  "reads evs = length (filter (\<lambda>e. e = ReadRequest) evs)"

text \<open>
  The replies a registry gives: a chunk, or the end (or both); never neither.
\<close>

fun well_formed :: "event \<Rightarrow> bool" where
  "well_formed (ChannelReply r) = (value r \<noteq> None \<or> done r)"
| "well_formed _ = True"

text \<open>
  The invariant of the stream behind the bound on the requests sent; \<open>R\<close> is the number
  of local read requests so far.
\<close>

definition stream_inv :: "rpc_stream \<Rightarrow> nat \<Rightarrow> bool" where
  "stream_inv s R \<longleftrightarrow>
     readRequests s \<le> R
     \<and> length (sent s) + readRequests s \<le> R + 1
     \<and> (state s \<noteq> Readable \<longrightarrow> readRequests s = 0)
     \<and> (state s = Readable \<longrightarrow>
          length (queue s) \<le> 1
        \<and> (queue s \<noteq> [] \<longrightarrow> readRequests s = 0 \<and> \<not> pulling s)
        \<and> (pullAgain s \<longrightarrow> pulling s \<and> readRequests s > 0)
        \<and> (pulling s \<longrightarrow> started s \<and> \<not> closeRequested s)
        \<and> (started s \<and> \<not> closeRequested s \<longrightarrow> pulling s \<or> queue s \<noteq> [])
        \<and> (\<not> started s \<longrightarrow> sent s = [] \<and> \<not> pulling s \<and> queue s = [] \<and> \<not> closeRequested s)
        \<and> (closeRequested s \<longrightarrow> queue s \<noteq> []))"

text \<open>
  The chunks that have reached the consumer's side, in order: those its reads were
  answered with, then those still in the queue.
\<close>

fun delivered_chunks :: "read_outcome list \<Rightarrow> chunk list" where
  "delivered_chunks [] = []"
| "delivered_chunks (Fulfilled r # rs) =
     (case value r of None \<Rightarrow> delivered_chunks rs | Some c \<Rightarrow> c # delivered_chunks rs)"
| "delivered_chunks (Rejected # rs) = delivered_chunks rs"

definition chunks_out :: "rpc_stream \<Rightarrow> chunk list" where
  "chunks_out s = delivered_chunks (delivered s) @ queue s"

text \<open>Every request sent carries the body id of the stream.\<close>

definition same_target :: "rpc_stream \<Rightarrow> bool" where
  "same_target s \<longleftrightarrow> (\<forall>x \<in> set (sent s). x = bodyId s)"

text \<open>
  Before it has started the stream is readable and idle; once started it has sent a
  request.
\<close>

definition start_inv :: "rpc_stream \<Rightarrow> bool" where
  "start_inv s \<longleftrightarrow>
     (if started s then sent s \<noteq> []
      else state s = Readable \<and> \<not> closeRequested s \<and> \<not> pulling s \<and> queue s = [])"

section \<open>Properties\<close>

subsection \<open>The body registry\<close>

lemma computeBodyId_None: "computeBodyId b None = (None, b)"
  by (simp add: computeBodyId_def)

lemma computeBodyId_Some:
  "computeBodyId b (Some s) =
     (Some (nextBodyId b), b\<lparr>nextBodyId := nextBodyId b + 1, bodies := (bodies b)(nextBodyId b \<mapsto> s)\<rparr>)"
  by (simp add: computeBodyId_def Let_def)

lemma readBodyChunk_nextBodyId: "nextBodyId (snd (readBodyChunk b i)) = nextBodyId b"
proof (cases "readers b i")
  case None
  note r = this
  show ?thesis
  proof (cases "bodies b i")
    case None
    then show ?thesis using r by (simp add: readBodyChunk_def)
  next
    case (Some s)
    then show ?thesis using r
      by (cases s) (simp_all add: readBodyChunk_def getReader_def Let_def)
  qed
next
  case (Some s)
  then show ?thesis
    by (cases s) (simp_all add: readBodyChunk_def)
qed

lemma run_identifiers:
  "identifiers (fst (run b ops)) = [nextBodyId b ..< nextBodyId b + present ops]"
proof (induction ops arbitrary: b)
  case Nil
  then show ?case by simp
next
  case (Cons x xs)
  show ?case
  proof (cases x)
    case (Register body)
    show ?thesis
    proof (cases body)
      case None
      then show ?thesis using Cons.IH [of b] Register
        by (simp add: computeBodyId_None split_beta)
    next
      case (Some s)
      then show ?thesis using Cons.IH [of "snd (computeBodyId b (Some s))"] Register
        by (simp add: computeBodyId_Some split_beta upt_rec)
    qed
  next
    case (Pull i)
    then show ?thesis using Cons.IH [of "snd (readBodyChunk b i)"] readBodyChunk_nextBodyId [of b i]
      by (simp add: split_beta)
  qed
qed

lemma run_nextBodyId:
  "nextBodyId (snd (run b ops)) = nextBodyId b + present ops"
proof (induction ops arbitrary: b)
  case Nil
  then show ?case by simp
next
  case (Cons x xs)
  show ?case
  proof (cases x)
    case (Register body)
    then show ?thesis using Cons.IH [of "snd (computeBodyId b body)"]
      by (cases body) (simp_all add: computeBodyId_None computeBodyId_Some split_beta)
  next
    case (Pull i)
    then show ?thesis using Cons.IH [of "snd (readBodyChunk b i)"] readBodyChunk_nextBodyId [of b i]
      by (simp add: split_beta)
  qed
qed

lemma readBodyChunk_eq:
  "readBodyChunk b i =
     (case remaining b i of
        None \<Rightarrow> (Inl (BadBodyId i), b)
      | Some [] \<Rightarrow> (Inr \<lparr>value = None, done = True\<rparr>,
                    b\<lparr>readers := (readers b)(i := None), bodies := (bodies b)(i := None)\<rparr>)
      | Some (c # cs) \<Rightarrow> (Inr \<lparr>value = Some c, done = False\<rparr>,
                    b\<lparr>readers := (readers b)(i \<mapsto> cs)\<rparr>))"
proof (cases "readers b i")
  case None
  note r = this
  show ?thesis
  proof (cases "bodies b i")
    case None
    then show ?thesis using r by (simp add: readBodyChunk_def remaining_def)
  next
    case (Some s)
    then show ?thesis using r
      by (cases s) (simp_all add: readBodyChunk_def remaining_def getReader_def Let_def)
  qed
next
  case (Some s)
  then show ?thesis
    by (cases s) (simp_all add: readBodyChunk_def remaining_def)
qed

lemma remaining_readBodyChunk_chunk:
  assumes "remaining b i = Some (c # cs)"
  shows "fst (readBodyChunk b i) = Inr \<lparr>value = Some c, done = False\<rparr>"
    and "remaining (snd (readBodyChunk b i)) i = Some cs"
  using assms by (simp_all add: readBodyChunk_eq) (simp add: remaining_def)

lemma remaining_readBodyChunk_end:
  assumes "remaining b i = Some []"
  shows "fst (readBodyChunk b i) = Inr \<lparr>value = None, done = True\<rparr>"
    and "readers (snd (readBodyChunk b i)) i = None"
    and "bodies (snd (readBodyChunk b i)) i = None"
  using assms by (simp_all add: readBodyChunk_eq)

lemma remaining_readBodyChunk_none:
  assumes "remaining b i = None"
  shows "readBodyChunk b i = (Inl (BadBodyId i), b)"
  using assms by (simp add: readBodyChunk_eq)

lemma readBodyChunk_other:
  assumes "j \<noteq> i"
  shows "remaining (snd (readBodyChunk b j)) i = remaining b i"
proof (cases "remaining b j")
  case None
  then show ?thesis by (simp add: readBodyChunk_eq)
next
  case (Some s)
  then show ?thesis using assms
    by (cases s) (simp_all add: readBodyChunk_eq, simp_all add: remaining_def split: option.splits)
qed

lemma computeBodyId_other:
  assumes "i < nextBodyId b"
  shows "remaining (snd (computeBodyId b body)) i = remaining b i"
    and "i < nextBodyId (snd (computeBodyId b body))"
proof -
  show "remaining (snd (computeBodyId b body)) i = remaining b i"
    using assms by (cases body) (auto simp: computeBodyId_None computeBodyId_Some remaining_def split: option.splits)
  show "i < nextBodyId (snd (computeBodyId b body))"
    using assms by (cases body) (simp_all add: computeBodyId_None computeBodyId_Some)
qed

lemma take_append_replicate:
  "n \<le> m \<Longrightarrow> take n (xs @ replicate m e) = take n (xs @ replicate n e)"
  by (auto simp: min_def)

lemma pull_replies_Cons:
  "pull_replies i (c # cs) (Suc n) = Inr \<lparr>value = Some c, done = False\<rparr> # pull_replies i cs n"
proof -
  let ?f = "\<lambda>c. Inr \<lparr>value = Some c, done = False\<rparr> :: error + chunk_result"
  let ?d = "Inr \<lparr>value = None, done = True\<rparr> :: error + chunk_result"
  have "take n ((map ?f cs @ [?d]) @ replicate (Suc n) (Inl (BadBodyId i)))
      = take n ((map ?f cs @ [?d]) @ replicate n (Inl (BadBodyId i)))"
    by (rule take_append_replicate) simp
  then have "take n (map ?f cs @ [?d] @ replicate (Suc n) (Inl (BadBodyId i)))
      = take n (map ?f cs @ [?d] @ replicate n (Inl (BadBodyId i)))"
    by (simp only: append_assoc)
  then show ?thesis
    by (simp only: pull_replies_def list.map append_Cons take_Suc_Cons)
qed

lemma pull_replies_Nil:
  "pull_replies i [] (Suc n) = Inr \<lparr>value = None, done = True\<rparr> # replicate n (Inl (BadBodyId i))"
  by (simp only: pull_replies_def list.map append_Nil append_Cons take_Suc_Cons take_replicate) simp

lemma pull_replies_0: "pull_replies i src 0 = []"
  by (simp add: pull_replies_def)

lemma pull_count_simps:
  "pull_count i [] = 0"
  "pull_count i (Register body # xs) = pull_count i xs"
  "pull_count i (Pull i # xs) = Suc (pull_count i xs)"
  "j \<noteq> i \<Longrightarrow> pull_count i (Pull j # xs) = pull_count i xs"
  by (simp_all add: pull_count_def)

lemma run_Register:
  "fst (run b (Register body # xs)) =
     Registered (fst (computeBodyId b body)) # fst (run (snd (computeBodyId b body)) xs)"
  "snd (run b (Register body # xs)) = snd (run (snd (computeBodyId b body)) xs)"
  by (simp_all add: split_beta)

lemma run_Pull:
  "fst (run b (Pull j # xs)) =
     Pulled (fst (readBodyChunk b j)) # fst (run (snd (readBodyChunk b j)) xs)"
  "snd (run b (Pull j # xs)) = snd (run (snd (readBodyChunk b j)) xs)"
  by (simp_all add: split_beta)

lemma replies_from_simps:
  "replies_from i r 0 = []"
  "replies_from i None n = replicate n (Inl (BadBodyId i))"
  "replies_from i (Some []) (Suc n) = Inr \<lparr>value = None, done = True\<rparr> # replies_from i None n"
  "replies_from i (Some (c # cs)) (Suc n) = Inr \<lparr>value = Some c, done = False\<rparr> # replies_from i (Some cs) n"
  by (simp_all add: replies_from_def pull_replies_0 pull_replies_Nil pull_replies_Cons split: option.splits)

lemma run_pulls_of:
  "i < nextBodyId b \<Longrightarrow>
   pulls_of i ops (fst (run b ops)) = replies_from i (remaining b i) (pull_count i ops)"
proof (induction ops arbitrary: b)
  case Nil
  then show ?case by (simp add: pull_count_simps replies_from_simps)
next
  case (Cons x xs)
  show ?case
  proof (cases x)
    case (Register body)
    have "pulls_of i (x # xs) (fst (run b (x # xs)))
        = pulls_of i xs (fst (run (snd (computeBodyId b body)) xs))"
      by (simp only: Register run_Register pulls_of.simps)
    also have "\<dots> = replies_from i (remaining (snd (computeBodyId b body)) i) (pull_count i xs)"
      by (rule Cons.IH) (rule computeBodyId_other(2) [OF Cons.prems])
    also have "\<dots> = replies_from i (remaining b i) (pull_count i (x # xs))"
      by (simp only: Register computeBodyId_other(1) [OF Cons.prems] pull_count_simps)
    finally show ?thesis .
  next
    case (Pull j)
    have nx: "i < nextBodyId (snd (readBodyChunk b j))"
      using Cons.prems by (simp only: readBodyChunk_nextBodyId)
    note IH = Cons.IH [OF nx]
    show ?thesis
    proof (cases "j = i")
      case False
      have "pulls_of i (x # xs) (fst (run b (x # xs)))
          = pulls_of i xs (fst (run (snd (readBodyChunk b j)) xs))"
        using False by (simp only: Pull run_Pull pulls_of.simps if_False)
      also have "\<dots> = replies_from i (remaining b i) (pull_count i xs)"
        by (simp only: IH readBodyChunk_other [OF False])
      also have "\<dots> = replies_from i (remaining b i) (pull_count i (x # xs))"
        by (simp only: Pull pull_count_simps(4) [OF False])
      finally show ?thesis .
    next
      case True
      have step: "pulls_of i (x # xs) (fst (run b (x # xs)))
          = fst (readBodyChunk b i) # replies_from i (remaining (snd (readBodyChunk b i)) i) (pull_count i xs)"
        using IH by (simp only: Pull True run_Pull pulls_of.simps if_True simp_thms)
      have cnt: "pull_count i (x # xs) = Suc (pull_count i xs)"
        by (simp only: Pull True pull_count_simps)
      show ?thesis
      proof (cases "remaining b i")
        case None
        have "readBodyChunk b i = (Inl (BadBodyId i), b)"
          by (rule remaining_readBodyChunk_none [OF None])
        then show ?thesis
          by (simp only: step cnt None fst_conv snd_conv replies_from_simps replicate_Suc)
      next
        case (Some src)
        show ?thesis
        proof (cases src)
          case Nil
          have e: "remaining b i = Some []" by (simp only: Some Nil)
          have none: "remaining (snd (readBodyChunk b i)) i = None"
            using remaining_readBodyChunk_end(2,3) [OF e]
            by (simp add: remaining_def)
          show ?thesis
            by (simp only: step cnt e none remaining_readBodyChunk_end(1) [OF e] replies_from_simps)
        next
          case (Cons c cs)
          have e: "remaining b i = Some (c # cs)" by (simp only: Some Cons)
          show ?thesis
            by (simp only: step cnt e remaining_readBodyChunk_chunk [OF e] replies_from_simps)
        qed
      qed
    qed
  qed
qed

lemma remaining_None_iff: "remaining b i = None \<longleftrightarrow> readers b i = None \<and> bodies b i = None"
  by (simp add: remaining_def split: option.splits)

lemma remaining_after_simps:
  "remaining_after r 0 = r"
  "remaining_after None n = None"
  "remaining_after (Some []) (Suc n) = None"
  "remaining_after (Some (c # cs)) (Suc n) = remaining_after (Some cs) n"
  by (simp_all add: remaining_after_def split: option.splits)

lemma run_remaining:
  "i < nextBodyId b \<Longrightarrow>
   remaining (snd (run b ops)) i = remaining_after (remaining b i) (pull_count i ops)"
proof (induction ops arbitrary: b)
  case Nil
  then show ?case by (simp add: pull_count_simps remaining_after_simps)
next
  case (Cons x xs)
  show ?case
  proof (cases x)
    case (Register body)
    have "remaining (snd (run b (x # xs))) i
        = remaining (snd (run (snd (computeBodyId b body)) xs)) i"
      by (simp only: Register run_Register)
    also have "\<dots> = remaining_after (remaining (snd (computeBodyId b body)) i) (pull_count i xs)"
      by (rule Cons.IH) (rule computeBodyId_other(2) [OF Cons.prems])
    also have "\<dots> = remaining_after (remaining b i) (pull_count i (x # xs))"
      by (simp only: Register computeBodyId_other(1) [OF Cons.prems] pull_count_simps)
    finally show ?thesis .
  next
    case (Pull j)
    have nx: "i < nextBodyId (snd (readBodyChunk b j))"
      using Cons.prems by (simp only: readBodyChunk_nextBodyId)
    note IH = Cons.IH [OF nx]
    show ?thesis
    proof (cases "j = i")
      case False
      have "remaining (snd (run b (x # xs))) i
          = remaining (snd (run (snd (readBodyChunk b j)) xs)) i"
        by (simp only: Pull run_Pull)
      also have "\<dots> = remaining_after (remaining b i) (pull_count i xs)"
        by (simp only: IH readBodyChunk_other [OF False])
      also have "\<dots> = remaining_after (remaining b i) (pull_count i (x # xs))"
        by (simp only: Pull pull_count_simps(4) [OF False])
      finally show ?thesis .
    next
      case True
      have step: "remaining (snd (run b (x # xs))) i
          = remaining_after (remaining (snd (readBodyChunk b i)) i) (pull_count i xs)"
        using IH by (simp only: Pull True run_Pull)
      have cnt: "pull_count i (x # xs) = Suc (pull_count i xs)"
        by (simp only: Pull True pull_count_simps)
      show ?thesis
      proof (cases "remaining b i")
        case None
        have "readBodyChunk b i = (Inl (BadBodyId i), b)"
          by (rule remaining_readBodyChunk_none [OF None])
        then show ?thesis
          by (simp only: step cnt None snd_conv remaining_after_simps)
      next
        case (Some src)
        show ?thesis
        proof (cases src)
          case Nil
          have e: "remaining b i = Some []" by (simp only: Some Nil)
          have none: "remaining (snd (readBodyChunk b i)) i = None"
            using remaining_readBodyChunk_end(2,3) [OF e]
            by (simp add: remaining_def)
          show ?thesis
            by (simp only: step cnt e none remaining_after_simps)
        next
          case (Cons c cs)
          have e: "remaining b i = Some (c # cs)" by (simp only: Some Cons)
          show ?thesis
            by (simp only: step cnt e remaining_readBodyChunk_chunk(2) [OF e] remaining_after_simps)
        qed
      qed
    qed
  qed
qed

lemma computeBodyId_remaining_new:
  "remaining (snd (computeBodyId b body)) j \<noteq> None \<Longrightarrow>
   remaining b j \<noteq> None \<or> fst (computeBodyId b body) = Some j"
  by (cases body) (auto simp: computeBodyId_None computeBodyId_Some remaining_def split: option.splits if_splits)

lemma readBodyChunk_remaining_new:
  assumes a: "remaining (snd (readBodyChunk b k)) j \<noteq> None"
  shows "remaining b j \<noteq> None"
proof (cases "k = j")
  case False
  show ?thesis using a by (simp add: readBodyChunk_other [OF False])
next
  case True
  show ?thesis
  proof
    assume n: "remaining b j = None"
    then have "readBodyChunk b j = (Inl (BadBodyId j), b)"
      by (rule remaining_readBodyChunk_none)
    then show False using a n True by simp
  qed
qed

lemma run_registered:
  "remaining (snd (run b ops)) j \<noteq> None \<Longrightarrow>
   remaining b j \<noteq> None \<or> j \<in> set (identifiers (fst (run b ops)))"
proof (induction ops arbitrary: b)
  case Nil
  then show ?case by simp
next
  case (Cons x xs)
  show ?case
  proof (cases x)
    case (Register body)
    have "remaining (snd (run (snd (computeBodyId b body)) xs)) j \<noteq> None"
      using Cons.prems unfolding Register run_Register .
    from Cons.IH [OF this]
    have "remaining (snd (computeBodyId b body)) j \<noteq> None
          \<or> j \<in> set (identifiers (fst (run (snd (computeBodyId b body)) xs)))" .
    then have "remaining b j \<noteq> None \<or> fst (computeBodyId b body) = Some j
          \<or> j \<in> set (identifiers (fst (run (snd (computeBodyId b body)) xs)))"
      using computeBodyId_remaining_new [of b body j] by blast
    then show ?thesis
      by (cases "fst (computeBodyId b body)") (auto simp only: Register run_Register identifiers.simps list.set insert_iff option.inject)
  next
    case (Pull k)
    have "remaining (snd (run (snd (readBodyChunk b k)) xs)) j \<noteq> None"
      using Cons.prems unfolding Pull run_Pull .
    from Cons.IH [OF this]
    have "remaining (snd (readBodyChunk b k)) j \<noteq> None
          \<or> j \<in> set (identifiers (fst (run (snd (readBodyChunk b k)) xs)))" .
    then have "remaining b j \<noteq> None
          \<or> j \<in> set (identifiers (fst (run (snd (readBodyChunk b k)) xs)))"
      using readBodyChunk_remaining_new [of b k j] by blast
    then show ?thesis
      by (simp only: Pull run_Pull identifiers.simps)
  qed
qed

lemma remaining_new_Bodies: "remaining new_Bodies j = None"
  by (simp add: remaining_def new_Bodies_def)

text \<open>
  Claim C3. In any sequence of calls on one registry, from its creation on, a call of
  \<open>computeBodyId\<close> with an absent body returns no identifier and leaves the registry as
  it was, and the calls with a present body return 1, 2, 3, ... in this order: the
  identifiers handed out are exactly \<open>[1 ..< k + 1]\<close> for \<open>k\<close> such calls, strictly
  increasing and without repetition, whatever pulls (and so releases) happen in between.
\<close>

theorem computeBodyId_identifiers_increasing: "computeBodyId b None = (None, b) \<and>
   identifiers (fst (run new_Bodies ops)) = [1 ..< Suc (present ops)] \<and>
   distinct (identifiers (fst (run new_Bodies ops))) \<and>
   sorted_wrt (<) (identifiers (fst (run new_Bodies ops)))"
proof -
  have n: "nextBodyId new_Bodies = 1" by (simp add: new_Bodies_def)
  have "identifiers (fst (run new_Bodies ops)) = [1 ..< Suc (present ops)]"
    using run_identifiers [of new_Bodies ops] by (simp only: n) simp
  then show ?thesis by (simp only: computeBodyId_None distinct_upt sorted_wrt_upt simp_thms)
qed


theorem computeBodyId_identifiers_increasing_witness:
  "identifiers (fst (run new_Bodies
      [Register (Some [[1]]), Pull 1, Pull 1, Register None, Register (Some []), Pull 1,
       Register (Some [[2], [3]])])) = [1, 2, 3]"
proof -
  have "present [Register (Some [[1::byte]]), Pull 1, Pull 1, Register None, Register (Some []),
      Pull 1, Register (Some [[2], [3]])] = 3"
    by simp
  then show ?thesis
    using computeBodyId_identifiers_increasing
      [of new_Bodies "[Register (Some [[1]]), Pull 1, Pull 1, Register None, Register (Some []),
       Pull 1, Register (Some [[2], [3]])]"]
    by (simp only: upt_conv_Cons) (simp add: upt_rec)
qed

text \<open>
  Claim C2. Let \<open>i\<close> be the identifier that \<open>computeBodyId\<close> returns for a body with
  chunks \<open>src\<close>, at any moment of the registry's life. In every continuation, whatever
  other calls come in between, the pulls \<open>readBodyChunk i\<close> reply with the chunks of
  \<open>src\<close> in their order, one chunk per pull (after \<open>n\<close> pulls the source stands at
  \<open>drop n src\<close>), then once with \<open>done = true\<close> and no value, and from then on with the
  bad-body-id error; once the terminal pull is made, neither \<open>readers\<close> nor \<open>bodies\<close>
  has an entry for \<open>i\<close>. A pull for an identifier that was never handed out fails with
  the same error and changes nothing.
\<close>

theorem readBodyChunk_drives_body_to_completion:
  assumes "computeBodyId (snd (run new_Bodies pre)) (Some src) = (Some i, b)"
  shows "pulls_of i ops (fst (run b ops)) = pull_replies i src (pull_count i ops)
       \<and> remaining (snd (run b ops)) i
           = (if pull_count i ops \<le> length src then Some (drop (pull_count i ops) src) else None)
       \<and> (length src < pull_count i ops \<longrightarrow>
            readers (snd (run b ops)) i = None \<and> bodies (snd (run b ops)) i = None)
       \<and> (\<forall>j. j \<notin> set (identifiers (fst (run new_Bodies pre))) \<longrightarrow>
            readBodyChunk (snd (run new_Bodies pre)) j = (Inl (BadBodyId j), snd (run new_Bodies pre)))"
proof -
  let ?b0 = "snd (run new_Bodies pre)"
  have i: "i = nextBodyId ?b0"
    and b: "b = ?b0\<lparr>nextBodyId := nextBodyId ?b0 + 1, bodies := (bodies ?b0)(nextBodyId ?b0 \<mapsto> src)\<rparr>"
    using assms by (auto simp: computeBodyId_Some)
  have lt: "i < nextBodyId b" by (simp add: i b)
  have nr: "readers ?b0 i = None"
  proof (rule ccontr)
    assume "readers ?b0 i \<noteq> None"
    then have "remaining ?b0 i \<noteq> None" by (simp add: remaining_None_iff)
    then have "i \<in> set (identifiers (fst (run new_Bodies pre)))"
      using run_registered [of new_Bodies pre i] by (simp add: remaining_new_Bodies)
    then show False
      using run_identifiers [of new_Bodies pre] run_nextBodyId [of new_Bodies pre]
      by (simp add: i)
  qed
  have r: "remaining b i = Some src"
    using nr by (simp add: remaining_def b i)
  have 1: "pulls_of i ops (fst (run b ops)) = pull_replies i src (pull_count i ops)"
    using run_pulls_of [OF lt, of ops] by (simp add: r replies_from_def)
  have 2: "remaining (snd (run b ops)) i
           = (if pull_count i ops \<le> length src then Some (drop (pull_count i ops) src) else None)"
    using run_remaining [OF lt, of ops] by (simp add: r remaining_after_def)
  have 3: "length src < pull_count i ops \<longrightarrow>
            readers (snd (run b ops)) i = None \<and> bodies (snd (run b ops)) i = None"
    using 2 by (auto simp: remaining_None_iff [symmetric])
  have 4: "readBodyChunk ?b0 j = (Inl (BadBodyId j), ?b0)"
    if "j \<notin> set (identifiers (fst (run new_Bodies pre)))" for j
  proof -
    have "\<not> remaining ?b0 j \<noteq> None"
      using run_registered [of new_Bodies pre j] that remaining_new_Bodies [of j] by blast
    then have "remaining ?b0 j = None" by blast
    then show ?thesis by (rule remaining_readBodyChunk_none)
  qed
  show ?thesis using 1 2 3 4 by blast
qed


theorem readBodyChunk_drives_body_to_completion_witness:
  "computeBodyId (snd (run new_Bodies [Register (Some [[1]])])) (Some [[1, 2], [3]])
     = (Some 2, \<lparr>bodies = [1 \<mapsto> [[1]], 2 \<mapsto> [[1, 2], [3]]], readers = Map.empty, nextBodyId = 3\<rparr>)
   \<and> pulls_of 2 [Pull 2, Pull 1, Pull 2, Register None, Pull 2, Pull 2]
        (fst (run \<lparr>bodies = [1 \<mapsto> [[1]], 2 \<mapsto> [[1, 2], [3]]], readers = Map.empty, nextBodyId = 3\<rparr>
                [Pull 2, Pull 1, Pull 2, Register None, Pull 2, Pull 2]))
     = [Inr \<lparr>value = Some [1, 2], done = False\<rparr>, Inr \<lparr>value = Some [3], done = False\<rparr>,
        Inr \<lparr>value = None, done = True\<rparr>, Inl (BadBodyId 2)]
   \<and> readers (snd (run \<lparr>bodies = [1 \<mapsto> [[1]], 2 \<mapsto> [[1, 2], [3]]], readers = Map.empty, nextBodyId = 3\<rparr>
                [Pull 2, Pull 1, Pull 2, Register None, Pull 2, Pull 2])) 2 = None
   \<and> bodies (snd (run \<lparr>bodies = [1 \<mapsto> [[1]], 2 \<mapsto> [[1, 2], [3]]], readers = Map.empty, nextBodyId = 3\<rparr>
                [Pull 2, Pull 1, Pull 2, Register None, Pull 2, Pull 2])) 2 = None
   \<and> readBodyChunk (snd (run new_Bodies [Register (Some [[1]])])) 7
     = (Inl (BadBodyId 7), snd (run new_Bodies [Register (Some [[1]])]))"
proof -
  let ?pre = "[Register (Some [[1::byte]])]"
  let ?src = "[[1, 2], [3::byte]]"
  let ?B = "\<lparr>bodies = [1 \<mapsto> [[1::byte]], 2 \<mapsto> ?src], readers = Map.empty, nextBodyId = 3\<rparr>"
  let ?ops = "[Pull 2, Pull 1, Pull 2, Register None, Pull 2, Pull 2]"
  have h: "computeBodyId (snd (run new_Bodies ?pre)) (Some ?src) = (Some 2, ?B)"
    by (simp add: new_Bodies_def computeBodyId_def eval_nat_numeral)
  have n: "pull_count 2 ?ops = 4"
    by (simp add: pull_count_def)
  have p: "pull_replies 2 ?src 4
     = [Inr \<lparr>value = Some [1, 2], done = False\<rparr>, Inr \<lparr>value = Some [3], done = False\<rparr>,
        Inr \<lparr>value = None, done = True\<rparr>, Inl (BadBodyId 2)]"
    by (simp add: pull_replies_def)
  have i: "7 \<notin> set (identifiers (fst (run new_Bodies ?pre)))"
    by (simp add: new_Bodies_def computeBodyId_def)
  show ?thesis
    using readBodyChunk_drives_body_to_completion [OF h, of ?ops] h i by (simp only: n p) simp
qed

subsection \<open>Headers\<close>

lemma fold_Headers_append:
  "fold (\<lambda>(name, v) h. Headers_append h name v) xs acc = acc @ xs"
  by (induction xs arbitrary: acc) (auto simp: Headers_append_def)

lemma new_Headers_eq: "new_Headers xs = xs"
  by (simp add: new_Headers_def fold_Headers_append)

lemma lower_char_idem:
  fixes c :: char
  defines "f \<equiv> \<lambda>c. if CHR ''A'' \<le> c \<and> c \<le> CHR ''Z'' then char_of (of_char c + (32::nat)) else c"
  shows "f (f c) = f c"
proof (cases "CHR ''A'' \<le> c \<and> c \<le> CHR ''Z''")
  case False
  then have "f c = c" by (auto simp: f_def)
  then show ?thesis by simp
next
  case True
  then have r: "65 \<le> (of_char c :: nat)" "(of_char c :: nat) \<le> 90"
    by (simp_all add: less_eq_char_def)
  then have "(of_char (char_of (of_char c + (32::nat))) :: nat) = of_char c + 32"
    by simp
  then have n: "\<not> (char_of (of_char c + (32::nat)) \<le> CHR ''Z'')"
    using r by (simp add: less_eq_char_def)
  have fc: "f c = char_of (of_char c + (32::nat))"
    using True by (simp add: f_def)
  have "f (char_of (of_char c + (32::nat))) = char_of (of_char c + (32::nat))"
    using n by (simp add: f_def)
  then show ?thesis by (simp add: fc)
qed

lemma byteLowerCase_idem: "byteLowerCase (byteLowerCase s) = byteLowerCase s"
  using lower_char_idem by (simp add: byteLowerCase_def)

lemma set_header_names: "set (header_names h) = (\<lambda>(k, v). byteLowerCase k) ` set h"
  by (simp add: header_names_def)

lemma header_names_lower: "n \<in> set (header_names h) \<Longrightarrow> byteLowerCase n = n"
  by (auto simp: set_header_names byteLowerCase_idem)

lemma header_names_sorted: "sorted (header_names h)" and header_names_distinct: "distinct (header_names h)"
  by (simp_all add: header_names_def)

lemma map_fst_entries: "map fst (Headers_entries h) = header_names h"
  by (simp add: Headers_entries_def comp_def)

lemma header_names_entries: "header_names (Headers_entries h) = header_names h"
proof -
  have "map (\<lambda>(k, v). byteLowerCase k) (Headers_entries h) = map byteLowerCase (header_names h)"
    by (simp add: Headers_entries_def comp_def)
  also have "\<dots> = header_names h"
    using header_names_lower [of _ h] by (simp add: map_idI)
  finally have "header_names (Headers_entries h) = sort (remdups (header_names h))"
    by (simp add: header_names_def [of "Headers_entries h"])
  then show ?thesis
    by (simp add: header_names_sorted header_names_distinct sort_key_id_if_sorted)
qed

lemma filter_eq_distinct: "distinct xs \<Longrightarrow> n \<in> set xs \<Longrightarrow> filter (\<lambda>m. m = n) xs = [n]"
  by (induction xs) (auto simp: filter_empty_conv)

lemma header_values_entries:
  assumes "n \<in> set (header_names h)"
  shows "header_values (Headers_entries h) n = [join '', '' (header_values h n)]"
proof -
  let ?f = "\<lambda>name. (name, join '', '' (header_values h name))"
  have "filter (\<lambda>(k, v). byteLowerCase k = byteLowerCase n) (map ?f (header_names h))
      = map ?f (filter (\<lambda>m. byteLowerCase m = byteLowerCase n) (header_names h))"
    by (simp add: filter_map comp_def)
  also have "filter (\<lambda>m. byteLowerCase m = byteLowerCase n) (header_names h)
      = filter (\<lambda>m. m = n) (header_names h)"
    using header_names_lower [of _ h] assms by (intro filter_cong) auto
  also have "\<dots> = [n]"
    by (rule filter_eq_distinct [OF header_names_distinct assms])
  finally show ?thesis
    by (simp add: header_values_def Headers_entries_def)
qed

lemma Headers_entries_idem: "Headers_entries (Headers_entries h) = Headers_entries h"
proof -
  have "Headers_entries (Headers_entries h)
      = map (\<lambda>name. (name, join '', '' (header_values (Headers_entries h) name))) (header_names h)"
    by (simp add: Headers_entries_def [of "Headers_entries h"] header_names_entries)
  also have "\<dots> = map (\<lambda>name. (name, join '', '' (header_values h name))) (header_names h)"
    by (rule map_cong) (simp_all add: header_values_entries)
  finally show ?thesis by (simp add: Headers_entries_def [of h])
qed


subsection \<open>The wire codec\<close>

lemma parseInt_minus_one: "parseInt ''-1'' = Some (- 1)" by code_simp
lemma parseInt_empty: "parseInt [] = None" by (simp add: parseInt_def)

lemma packResponse_inline:
  assumes "rs_bodyInit response = None" and "contentLength response = Some n"
      and "0 \<le> n" and "n \<le> M"
  shows "packResponse M response b =
     (Inr \<lparr>ps_status = rs_status response, ps_headers = Headers_entries (rs_headers response),
           ps_bodyId = None, ps_bodyText = None, ps_bodyBytes = Some (arrayBuffer response)\<rparr>, b)"
  using assms by (simp add: packResponse_def)

lemma packResponse_reference:
  assumes "rs_bodyInit response = None"
      and "contentLength response = None \<or> (\<exists>n. contentLength response = Some n \<and> (n < 0 \<or> M < n))"
  shows "packResponse M response b =
     (Inr \<lparr>ps_status = rs_status response, ps_headers = Headers_entries (rs_headers response),
           ps_bodyId = fst (computeBodyId b (rs_body response)), ps_bodyText = None,
           ps_bodyBytes = None\<rparr>, snd (computeBodyId b (rs_body response)))"
  using assms by (auto simp: packResponse_def split_beta)

lemma contentLength_absent:
  "Headers_get (rs_headers response) ''content-length'' = None \<Longrightarrow>
   contentLength response = Some (- 1)"
  by (simp add: contentLength_def parseInt_minus_one)

lemma contentLength_present:
  "Headers_get (rs_headers response) ''content-length'' = Some v \<Longrightarrow>
   contentLength response = (if v = [] then Some (- 1) else parseInt v)"
  by (simp add: contentLength_def parseInt_minus_one)

lemma fst_computeBodyId: "fst (computeBodyId b body) = (case body of None \<Rightarrow> None | Some s \<Rightarrow> Some (nextBodyId b))"
  by (cases body) (simp_all add: computeBodyId_None computeBodyId_Some)

lemma checkInit_eq:
  "checkInit init =
     (case unsupported_options init of
        [] \<Rightarrow> None
      | opt # _ \<Rightarrow> Some (PackRequestInit opt (if opt = ''redirect'' then ri_redirect init else None)))"
  by (simp add: unsupported_options_def checkInit_def)

lemma checkInit_None: "unsupported_options init = [] \<Longrightarrow> checkInit init = None"
  by (simp add: checkInit_eq)

lemma checkInit_Some:
  "unsupported_options init \<noteq> [] \<Longrightarrow>
   \<exists>detail. checkInit init = Some (PackRequestInit (hd (unsupported_options init)) detail)"
  by (cases "unsupported_options init") (simp_all add: checkInit_eq)

lemma Headers_entries_Nil: "Headers_entries [] = []"
  by (simp add: Headers_entries_def header_names_def)

text \<open>
  Claim C1, as amended. For every response given to \<open>packResponse\<close>: a synthetic response
  whose body initializer is a string is packed with \<open>bodyText\<close> set to that string,
  whatever its length; one whose initializer is a stream is packed with a body reference;
  a response that is not synthetic, whose \<open>content-length\<close> header is present and parses
  to a number from 0 to the inlining threshold, is packed with \<open>bodyBytes\<close> set (to the
  buffered body) and no body reference; and when the header is absent or the number is
  above the threshold, the packed response has no \<open>bodyBytes\<close>, and it has a body
  reference exactly when the body of the response is not \<open>null\<close>.
\<close>

theorem packResponse_body_choice:
  "(\<forall>t. rs_bodyInit response = Some (Text t) \<longrightarrow>
      (\<exists>p. packResponse M response b = (Inr p, b) \<and> ps_bodyText p = Some t))
   \<and> (\<forall>s. rs_bodyInit response = Some (Stream s) \<longrightarrow>
      (\<exists>p b'. packResponse M response b = (Inr p, b') \<and> ps_bodyId p \<noteq> None))
   \<and> (\<forall>v n. rs_bodyInit response = None
        \<and> Headers_get (rs_headers response) ''content-length'' = Some v
        \<and> parseInt v = Some n \<and> 0 \<le> n \<and> n \<le> M \<longrightarrow>
      (\<exists>p. packResponse M response b = (Inr p, b)
         \<and> ps_bodyBytes p = Some (arrayBuffer response) \<and> ps_bodyId p = None))
   \<and> (rs_bodyInit response = None
        \<and> (Headers_get (rs_headers response) ''content-length'' = None
           \<or> (\<exists>v n. Headers_get (rs_headers response) ''content-length'' = Some v
                 \<and> parseInt v = Some n \<and> M < n)) \<longrightarrow>
      (\<exists>p b'. packResponse M response b = (Inr p, b')
         \<and> ps_bodyBytes p = None
         \<and> (ps_bodyId p \<noteq> None \<longleftrightarrow> rs_body response \<noteq> None)))"
proof -
  have 1: "\<exists>p. packResponse M response b = (Inr p, b) \<and> ps_bodyText p = Some t"
    if "rs_bodyInit response = Some (Text t)" for t
    using that by (simp add: packResponse_def)
  have 2: "\<exists>p b'. packResponse M response b = (Inr p, b') \<and> ps_bodyId p \<noteq> None"
    if "rs_bodyInit response = Some (Stream s)" for s
    using that by (simp add: packResponse_def computeBodyId_Some)
  have 3: "\<exists>p. packResponse M response b = (Inr p, b)
         \<and> ps_bodyBytes p = Some (arrayBuffer response) \<and> ps_bodyId p = None"
    if "rs_bodyInit response = None
        \<and> Headers_get (rs_headers response) ''content-length'' = Some v
        \<and> parseInt v = Some n \<and> 0 \<le> n \<and> n \<le> M" for v n
  proof -
    have "v \<noteq> []" using that parseInt_empty by auto
    then have "contentLength response = Some n"
      using that by (simp add: contentLength_present)
    from packResponse_inline [OF _ this, of M b] that show ?thesis by simp
  qed
  have 4: "\<exists>p b'. packResponse M response b = (Inr p, b')
         \<and> ps_bodyBytes p = None
         \<and> (ps_bodyId p \<noteq> None \<longleftrightarrow> rs_body response \<noteq> None)"
    if a: "rs_bodyInit response = None"
      and c: "Headers_get (rs_headers response) ''content-length'' = None
           \<or> (\<exists>v n. Headers_get (rs_headers response) ''content-length'' = Some v
                 \<and> parseInt v = Some n \<and> M < n)"
  proof -
    have "contentLength response = None
        \<or> (\<exists>n. contentLength response = Some n \<and> (n < 0 \<or> M < n))"
      using c
    proof
      assume "Headers_get (rs_headers response) ''content-length'' = None"
      then show ?thesis by (simp add: contentLength_absent)
    next
      assume "\<exists>v n. Headers_get (rs_headers response) ''content-length'' = Some v
                 \<and> parseInt v = Some n \<and> M < n"
      then obtain v n where v: "Headers_get (rs_headers response) ''content-length'' = Some v"
        and n: "parseInt v = Some n" "M < n" by blast
      have "v \<noteq> []" using n parseInt_empty by auto
      then show ?thesis using v n by (simp add: contentLength_present)
    qed
    from packResponse_reference [OF a this, of b]
    show ?thesis by (simp add: fst_computeBodyId split: option.splits)
  qed
  show ?thesis using 1 2 3 4 by blast
qed

theorem packResponse_body_choice_witness:
  "\<exists>p. packResponse 1024 \<lparr>rs_status = 200, rs_headers = [(''Content-Length'', ''3'')],
                       rs_body = Some [[97, 98], [99]], rs_bodyInit = None\<rparr> new_Bodies
     = (Inr p, new_Bodies) \<and> ps_bodyBytes p = Some [97, 98, 99] \<and> ps_bodyId p = None"
proof -
  have g: "Headers_get [(''Content-Length'', ''3'')] ''content-length'' = Some ''3''"
    by code_simp
  have p: "parseInt ''3'' = Some 3"
    by code_simp
  show ?thesis
    using packResponse_body_choice [of "\<lparr>rs_status = 200, rs_headers = [(''Content-Length'', ''3'')],
                       rs_body = Some [[97, 98], [99]], rs_bodyInit = None\<rparr>" 1024 new_Bodies] g p
    by (simp add: arrayBuffer_def)
qed

text \<open>
  The claim as it was stated promises a body reference whenever the \<open>content-length\<close> is
  absent. A response with no such header and a \<open>null\<close> body (a 204, say) is packed with
  no reference: \<open>computeBodyId\<close> returns nothing for an absent body.
\<close>

theorem packResponse_null_body_no_reference:
  "rs_bodyInit \<lparr>rs_status = 204, rs_headers = [(''Server'', ''x'')], rs_body = None, rs_bodyInit = None\<rparr> = None
   \<and> Headers_get [(''Server'', ''x'')] ''content-length'' = None
   \<and> packResponse 1024 \<lparr>rs_status = 204, rs_headers = [(''Server'', ''x'')], rs_body = None,
                       rs_bodyInit = None\<rparr> new_Bodies
     = (Inr \<lparr>ps_status = 204, ps_headers = [(''server'', ''x'')], ps_bodyId = None,
             ps_bodyText = None, ps_bodyBytes = None\<rparr>, new_Bodies)"
proof -
  have g: "Headers_get [(''Server'', ''x'')] ''content-length'' = None"
    by code_simp
  have e: "Headers_entries [(''Server'', ''x'')] = [(''server'', ''x'')]"
    by code_simp
  have c: "contentLength \<lparr>rs_status = 204, rs_headers = [(''Server'', ''x'')], rs_body = None,
                       rs_bodyInit = None\<rparr> = Some (- 1)"
    by (rule contentLength_absent) (simp add: g)
  show ?thesis
    by (simp add: g packResponse_def c e computeBodyId_None)
qed

text \<open>
  Claim C4. In every packed response that \<open>packResponse\<close> returns, at most one of
  \<open>bodyId\<close>, \<open>bodyText\<close> and \<open>bodyBytes\<close> is set; and when none of them is set, the
  response had no body: it was not synthetic and its \<open>body\<close> was \<open>null\<close>.
\<close>

theorem packResponse_at_most_one_body:
  assumes "packResponse M response b = (Inr p, b')"
  shows "length (filter id [ps_bodyId p \<noteq> None, ps_bodyText p \<noteq> None, ps_bodyBytes p \<noteq> None]) \<le> 1
       \<and> (ps_bodyId p = None \<and> ps_bodyText p = None \<and> ps_bodyBytes p = None \<longrightarrow>
            rs_bodyInit response = None \<and> rs_body response = None)"
proof (cases "rs_bodyInit response")
  case None
  show ?thesis
  proof (cases "case contentLength response of None \<Rightarrow> False | Some n \<Rightarrow> n > - 1 \<and> n \<le> M")
    case True
    then show ?thesis using assms None by (auto simp: packResponse_def)
  next
    case False
    then show ?thesis using assms None
      by (cases "rs_body response") (auto simp: packResponse_def computeBodyId_None computeBodyId_Some)
  qed
next
  case (Some bi)
  then show ?thesis using assms
    by (cases bi) (auto simp: packResponse_def computeBodyId_Some)
qed

theorem packResponse_at_most_one_body_witness:
  "packResponse 1024 \<lparr>rs_status = 200, rs_headers = [], rs_body = None,
                       rs_bodyInit = Some (Text ''hi'')\<rparr> new_Bodies
     = (Inr \<lparr>ps_status = 200, ps_headers = [], ps_bodyId = None, ps_bodyText = Some ''hi'',
             ps_bodyBytes = None\<rparr>, new_Bodies)
   \<and> length (filter id [ps_bodyId \<lparr>ps_status = 200, ps_headers = [], ps_bodyId = None,
             ps_bodyText = Some ''hi'', ps_bodyBytes = None\<rparr> \<noteq> None, True, False]) \<le> 1"
proof -
  have h: "packResponse 1024 \<lparr>rs_status = 200, rs_headers = [], rs_body = None,
                       rs_bodyInit = Some (Text ''hi'')\<rparr> new_Bodies
     = (Inr \<lparr>ps_status = 200, ps_headers = [], ps_bodyId = None, ps_bodyText = Some ''hi'',
             ps_bodyBytes = None\<rparr>, new_Bodies)"
    by (simp add: packResponse_def Headers_entries_Nil)
  show ?thesis using packResponse_at_most_one_body [OF h] h by simp
qed

text \<open>
  Claim C5. \<open>packRequest\<close> on a URL string: with no options bag the method is \<open>GET\<close>,
  the headers are empty and there is no body reference; with a bag that sets none of the
  unsupported options, the method is the bag's (\<open>GET\<close> when it gives none) and the
  headers are the bag's, flattened by enumeration; and with a bag that sets any of
  \<open>body\<close>, \<open>cache\<close>, \<open>credentials\<close>, \<open>integrity\<close>, \<open>keepalive\<close>, \<open>mode\<close>, a
  \<open>redirect\<close> other than \<open>follow\<close>, \<open>referrer\<close>, \<open>referrerPolicy\<close>, \<open>signal\<close> or
  \<open>window\<close>, the call fails with the error that names an option that is set: the first
  of them in this order. The registry is not touched.
\<close>

theorem packRequest_url_options:
  "packRequest (InfoString url) None b =
     (Inr \<lparr>pq_method = ''GET'', pq_url = url, pq_headers = [], pq_bodyId = None\<rparr>, b)
   \<and> (unsupported_options init = [] \<longrightarrow>
        packRequest (InfoString url) (Some init) b =
          (Inr \<lparr>pq_method = (case ri_method init of None \<Rightarrow> ''GET'' | Some m \<Rightarrow> m),
                pq_url = url,
                pq_headers = (case ri_headers init of None \<Rightarrow> []
                              | Some h \<Rightarrow> Headers_entries (new_Headers h)),
                pq_bodyId = None\<rparr>, b))
   \<and> (unsupported_options init \<noteq> [] \<longrightarrow>
        (\<exists>opt detail. packRequest (InfoString url) (Some init) b = (Inl (PackRequestInit opt detail), b)
           \<and> opt = hd (unsupported_options init) \<and> opt \<in> set (unsupported_options init)))"
proof -
  have 1: "packRequest (InfoString url) None b =
     (Inr \<lparr>pq_method = ''GET'', pq_url = url, pq_headers = [], pq_bodyId = None\<rparr>, b)"
    by (simp add: packRequest_def)
  have 2: "packRequest (InfoString url) (Some init) b =
          (Inr \<lparr>pq_method = (case ri_method init of None \<Rightarrow> ''GET'' | Some m \<Rightarrow> m),
                pq_url = url,
                pq_headers = (case ri_headers init of None \<Rightarrow> []
                              | Some h \<Rightarrow> Headers_entries (new_Headers h)),
                pq_bodyId = None\<rparr>, b)" if "unsupported_options init = []"
    using checkInit_None [OF that] by (simp add: packRequest_def)
  have 3: "\<exists>opt detail. packRequest (InfoString url) (Some init) b = (Inl (PackRequestInit opt detail), b)
           \<and> opt = hd (unsupported_options init) \<and> opt \<in> set (unsupported_options init)"
    if "unsupported_options init \<noteq> []"
  proof -
    from checkInit_Some [OF that] obtain detail
      where "checkInit init = Some (PackRequestInit (hd (unsupported_options init)) detail)" ..
    then have "packRequest (InfoString url) (Some init) b
        = (Inl (PackRequestInit (hd (unsupported_options init)) detail), b)"
      by (simp add: packRequest_def)
    then show ?thesis using that by simp
  qed
  show ?thesis using 1 2 3 by blast
qed

theorem packRequest_url_options_witness:
  "\<exists>detail. packRequest (InfoString ''https://example.test/x'')
     (Some \<lparr>ri_method = Some ''POST'', ri_headers = None, ri_body = None,
            ri_cache = Some ''no-store'', ri_credentials = None, ri_integrity = None,
            ri_keepalive = None, ri_mode = None, ri_redirect = Some ''follow'',
            ri_referrer = None, ri_referrerPolicy = None, ri_signal = Some Null,
            ri_window = None\<rparr>) new_Bodies
   = (Inl (PackRequestInit ''cache'' detail), new_Bodies)"
proof -
  let ?i = "\<lparr>ri_method = Some ''POST'', ri_headers = None, ri_body = None,
            ri_cache = Some ''no-store'', ri_credentials = None, ri_integrity = None,
            ri_keepalive = None, ri_mode = None, ri_redirect = Some ''follow'',
            ri_referrer = None, ri_referrerPolicy = None, ri_signal = Some Null,
            ri_window = None\<rparr>"
  have u: "unsupported_options ?i = [''cache'', ''signal'']"
    by (simp add: unsupported_options_def)
  show ?thesis
    using packRequest_url_options [of "''https://example.test/x''" new_Bodies ?i]
    by (simp only: u) simp
qed

lemma unpackRequest_bodiless:
  "pq_bodyId p = None \<Longrightarrow>
   unpackRequest parseURL p resolver = new_Request parseURL (pq_url p) (pq_method p) (pq_headers p) None"
  by (simp add: unpackRequest_def new_Headers_eq)

lemma packRequest_InfoString_result:
  assumes "packRequest (InfoString url) init b = (Inr p, b')"
  shows "pq_bodyId p = None \<and> pq_url p = url
       \<and> pq_method p = (case init of None \<Rightarrow> ''GET''
                          | Some i \<Rightarrow> (case ri_method i of None \<Rightarrow> ''GET'' | Some m \<Rightarrow> m))
       \<and> pq_headers p = (case init of None \<Rightarrow> []
                          | Some i \<Rightarrow> (case ri_headers i of None \<Rightarrow> []
                                        | Some h \<Rightarrow> Headers_entries (new_Headers h)))"
proof (cases init)
  case None
  then show ?thesis using assms by (auto simp: packRequest_def)
next
  case (Some i)
  then show ?thesis using assms
    by (cases "checkInit i") (auto simp: packRequest_def)
qed


text \<open>
  Claim C6, as amended. A request object without body, whose method and URL are what the
  platform's \<open>Request\<close> constructor leaves unchanged (as those of every request it has
  made are), that is packed and then unpacked comes back with its method, its URL and its
  headers as enumerated (the same list of (name, value) pairs, hence the same set); the
  body resolver is arbitrary, one that fails on every reference included, since it is not
  called. For a URL string, with or without an options bag, that \<open>packRequest\<close> accepts,
  the unpacked request has the given method (\<open>GET\<close> by default) and the given URL as the
  constructor normalises them, the headers of the bag as enumerated and no body; and
  unpacking fails with a \<open>TypeError\<close> when the constructor rejects the URL or the method.
\<close>

theorem pack_unpack_request_roundtrip:
  "(rq_body r = None \<and> parseURL (rq_url r) = Some (rq_url r)
      \<and> normalizeMethod (rq_method r) = Some (rq_method r) \<longrightarrow>
      (\<exists>p r'. packRequest (InfoRequest r) None b = (Inr p, b)
         \<and> unpackRequest parseURL p resolver = Inr r'
         \<and> rq_method r' = rq_method r \<and> rq_url r' = rq_url r
         \<and> Headers_entries (rq_headers r') = Headers_entries (rq_headers r)
         \<and> rq_body r' = None))
   \<and> (\<forall>p b'. packRequest (InfoString url) init b = (Inr p, b') \<longrightarrow>
        (\<forall>u m. parseURL url = Some u
            \<and> normalizeMethod (case init of None \<Rightarrow> ''GET''
                 | Some i \<Rightarrow> (case ri_method i of None \<Rightarrow> ''GET'' | Some m \<Rightarrow> m)) = Some m \<longrightarrow>
           (\<exists>r'. unpackRequest parseURL p resolver = Inr r'
              \<and> rq_method r' = m \<and> rq_url r' = u
              \<and> Headers_entries (rq_headers r')
                  = Headers_entries (new_Headers (case init of None \<Rightarrow> []
                       | Some i \<Rightarrow> (case ri_headers i of None \<Rightarrow> [] | Some h \<Rightarrow> h)))
              \<and> rq_body r' = None))
        \<and> (parseURL url = None
            \<or> normalizeMethod (case init of None \<Rightarrow> ''GET''
                 | Some i \<Rightarrow> (case ri_method i of None \<Rightarrow> ''GET'' | Some m \<Rightarrow> m)) = None \<longrightarrow>
           unpackRequest parseURL p resolver = Inl TypeError))"
proof -
  have 1: "\<exists>p r'. packRequest (InfoRequest r) None b = (Inr p, b)
         \<and> unpackRequest parseURL p resolver = Inr r'
         \<and> rq_method r' = rq_method r \<and> rq_url r' = rq_url r
         \<and> Headers_entries (rq_headers r') = Headers_entries (rq_headers r)
         \<and> rq_body r' = None"
    if "rq_body r = None \<and> parseURL (rq_url r) = Some (rq_url r)
      \<and> normalizeMethod (rq_method r) = Some (rq_method r)"
    using that
    by (simp add: packRequest_def unpackRequest_def new_Request_def computeBodyId_None
          new_Headers_eq Headers_entries_idem)
  have 2: "\<exists>r'. unpackRequest parseURL p resolver = Inr r'
              \<and> rq_method r' = m \<and> rq_url r' = u
              \<and> Headers_entries (rq_headers r')
                  = Headers_entries (new_Headers (case init of None \<Rightarrow> []
                       | Some i \<Rightarrow> (case ri_headers i of None \<Rightarrow> [] | Some h \<Rightarrow> h)))
              \<and> rq_body r' = None"
    if pk: "packRequest (InfoString url) init b = (Inr p, b')"
      and ok: "parseURL url = Some u
            \<and> normalizeMethod (case init of None \<Rightarrow> ''GET''
                 | Some i \<Rightarrow> (case ri_method i of None \<Rightarrow> ''GET'' | Some m \<Rightarrow> m)) = Some m"
    for p b' u m
  proof -
    note f = packRequest_InfoString_result [OF pk]
    have "unpackRequest parseURL p resolver
        = Inr \<lparr>rq_method = m, rq_url = u, rq_headers = pq_headers p, rq_body = None\<rparr>"
      using f ok by (simp add: unpackRequest_bodiless new_Request_def)
    moreover have "Headers_entries (pq_headers p)
        = Headers_entries (new_Headers (case init of None \<Rightarrow> []
                       | Some i \<Rightarrow> (case ri_headers i of None \<Rightarrow> [] | Some h \<Rightarrow> h)))"
      using f by (auto simp: new_Headers_eq Headers_entries_idem split: option.splits)
    ultimately show ?thesis by simp
  qed
  have 3: "unpackRequest parseURL p resolver = Inl TypeError"
    if pk: "packRequest (InfoString url) init b = (Inr p, b')"
      and bad: "parseURL url = None
            \<or> normalizeMethod (case init of None \<Rightarrow> ''GET''
                 | Some i \<Rightarrow> (case ri_method i of None \<Rightarrow> ''GET'' | Some m \<Rightarrow> m)) = None"
    for p b'
  proof -
    note f = packRequest_InfoString_result [OF pk]
    show ?thesis
      using f bad by (auto simp: unpackRequest_bodiless new_Request_def split: option.splits)
  qed
  show ?thesis using 1 2 3 by blast
qed

theorem pack_unpack_request_roundtrip_witness:
  "(\<exists>p r'. packRequest (InfoRequest \<lparr>rq_method = ''DELETE'', rq_url = ''https://example.test/x'',
        rq_headers = [(''B'', ''1''), (''a'', ''2''), (''b'', ''3'')], rq_body = None\<rparr>) None new_Bodies
      = (Inr p, new_Bodies)
    \<and> unpackRequest [''https://example.test/x'' \<mapsto> ''https://example.test/x''] p (\<lambda>i. Inl ())
        = Inr (r' :: unit Request)
    \<and> rq_method r' = ''DELETE'' \<and> rq_url r' = ''https://example.test/x''
    \<and> Headers_entries (rq_headers r') = [(''a'', ''2''), (''b'', ''1, 3'')]
    \<and> rq_body r' = None)
   \<and> (\<exists>r'. unpackRequest [''https://example.test'' \<mapsto> ''https://example.test/'']
          \<lparr>pq_method = ''post'', pq_url = ''https://example.test'',
           pq_headers = [(''accept'', ''*/*'')], pq_bodyId = None\<rparr> (\<lambda>i. Inl ())
        = Inr (r' :: unit Request)
      \<and> rq_method r' = ''POST'' \<and> rq_url r' = ''https://example.test/''
      \<and> Headers_entries (rq_headers r') = [(''accept'', ''*/*'')]
      \<and> rq_body r' = None)"
proof -
  let ?r = "\<lparr>rq_method = ''DELETE'', rq_url = ''https://example.test/x'',
        rq_headers = [(''B'', ''1''), (''a'', ''2''), (''b'', ''3'')], rq_body = None\<rparr> :: stream Request"
  let ?parse = "[''https://example.test/x'' \<mapsto> ''https://example.test/x'']"
  let ?parse2 = "[''https://example.test'' \<mapsto> ''https://example.test/'']"
  let ?i = "\<lparr>ri_method = Some ''post'', ri_headers = Some [(''Accept'', ''*/*'')], ri_body = None,
            ri_cache = None, ri_credentials = None, ri_integrity = None, ri_keepalive = None,
            ri_mode = None, ri_redirect = None, ri_referrer = None, ri_referrerPolicy = None,
            ri_signal = None, ri_window = None\<rparr>"
  let ?p = "\<lparr>pq_method = ''post'', pq_url = ''https://example.test'',
           pq_headers = [(''accept'', ''*/*'')], pq_bodyId = None\<rparr>"
  have e: "Headers_entries [(''B'', ''1''), (''a'', ''2''), (''b'', ''3'')] = [(''a'', ''2''), (''b'', ''1, 3'')]"
    by code_simp
  have e2: "Headers_entries [(''Accept'', ''*/*'')] = [(''accept'', ''*/*'')]"
    by code_simp
  have m: "normalizeMethod ''DELETE'' = Some ''DELETE''"
    by code_simp
  have m2: "normalizeMethod ''post'' = Some ''POST''"
    by code_simp
  have pk: "packRequest (InfoString ''https://example.test'') (Some ?i) new_Bodies = (Inr ?p, new_Bodies)"
    by (simp add: packRequest_def checkInit_def new_Headers_eq e2)
  have "rq_body ?r = None \<and> ?parse (rq_url ?r) = Some (rq_url ?r)
      \<and> normalizeMethod (rq_method ?r) = Some (rq_method ?r) \<longrightarrow>
      (\<exists>p r'. packRequest (InfoRequest ?r) None new_Bodies = (Inr p, new_Bodies)
         \<and> unpackRequest ?parse p (\<lambda>i. Inl ()) = Inr (r' :: unit Request)
         \<and> rq_method r' = rq_method ?r \<and> rq_url r' = rq_url ?r
         \<and> Headers_entries (rq_headers r') = Headers_entries (rq_headers ?r)
         \<and> rq_body r' = None)"
    by (rule conjunct1 [OF pack_unpack_request_roundtrip])
  then have 1: "\<exists>p r'. packRequest (InfoRequest ?r) None new_Bodies = (Inr p, new_Bodies)
         \<and> unpackRequest ?parse p (\<lambda>i. Inl ()) = Inr (r' :: unit Request)
         \<and> rq_method r' = ''DELETE'' \<and> rq_url r' = ''https://example.test/x''
         \<and> Headers_entries (rq_headers r') = [(''a'', ''2''), (''b'', ''1, 3'')]
         \<and> rq_body r' = None"
    by (simp add: e m)
  from conjunct2 [OF pack_unpack_request_roundtrip [where url = "''https://example.test''" and init = "Some ?i"
      and b = new_Bodies and parseURL = ?parse2 and resolver = "\<lambda>i. Inl () :: unit + unit"]] pk
  have 2: "\<exists>r'. unpackRequest ?parse2 ?p (\<lambda>i. Inl ()) = Inr (r' :: unit Request)
      \<and> rq_method r' = ''POST'' \<and> rq_url r' = ''https://example.test/''
      \<and> Headers_entries (rq_headers r') = [(''accept'', ''*/*'')]
      \<and> rq_body r' = None"
    by (simp add: m2 new_Headers_eq e2)
  show ?thesis using 1 2 by blast
qed

text \<open>
  The claim as it was stated has the method and the URL of a URL string come back as they
  were given. \<open>packRequest\<close> copies the strings and \<open>new Request\<close> normalises them: the
  method \<open>get\<close> comes back as \<open>GET\<close> and the URL \<open>https://example.test\<close> as
  \<open>https://example.test/\<close> (the URL parser gives this URL its path, as the URL
  standard has it); and the relative URL \<open>/x\<close>, which \<open>packRequest\<close> accepts and which
  does not parse, makes \<open>unpackRequest\<close> throw.
\<close>

theorem unpackRequest_normalises_method_and_url:
  "packRequest (InfoString ''https://example.test'')
     (Some \<lparr>ri_method = Some ''get'', ri_headers = None, ri_body = None, ri_cache = None,
            ri_credentials = None, ri_integrity = None, ri_keepalive = None, ri_mode = None,
            ri_redirect = None, ri_referrer = None, ri_referrerPolicy = None, ri_signal = None,
            ri_window = None\<rparr>) new_Bodies
     = (Inr \<lparr>pq_method = ''get'', pq_url = ''https://example.test'', pq_headers = [],
             pq_bodyId = None\<rparr>, new_Bodies)
   \<and> unpackRequest [''https://example.test'' \<mapsto> ''https://example.test/'']
        \<lparr>pq_method = ''get'', pq_url = ''https://example.test'', pq_headers = [], pq_bodyId = None\<rparr>
        (\<lambda>i. Inl ())
     = (Inr \<lparr>rq_method = ''GET'', rq_url = ''https://example.test/'', rq_headers = [],
             rq_body = None\<rparr> :: unit failure + unit Request)
   \<and> packRequest (InfoString ''/x'') None new_Bodies
     = (Inr \<lparr>pq_method = ''GET'', pq_url = ''/x'', pq_headers = [], pq_bodyId = None\<rparr>, new_Bodies)
   \<and> unpackRequest [''https://example.test'' \<mapsto> ''https://example.test/'']
        \<lparr>pq_method = ''GET'', pq_url = ''/x'', pq_headers = [], pq_bodyId = None\<rparr>
        (\<lambda>i. Inl ())
     = (Inl TypeError :: unit failure + unit Request)"
proof -
  have m: "normalizeMethod ''get'' = Some ''GET''"
    by code_simp
  show ?thesis
    by (simp add: packRequest_def checkInit_def unpackRequest_def new_Request_def new_Headers_eq m)
qed




text \<open>
  Claim C9. \<open>packRequest\<close> with a request object and an options bag that is not
  \<open>undefined\<close> fails with the error of the unsupported shape, and leaves the registry
  as it was.
\<close>

theorem packRequest_object_with_init_fails: "packRequest (InfoRequest r) (Some init) b = (Inl PackRequestImplement, b)"
  by (simp add: packRequest_def)

theorem packRequest_object_with_init_fails_witness:
  "packRequest (InfoRequest \<lparr>rq_method = ''GET'', rq_url = ''https://example.test/x'',
        rq_headers = [], rq_body = None\<rparr>)
     (Some \<lparr>ri_method = Some ''GET'', ri_headers = None, ri_body = None, ri_cache = None,
            ri_credentials = None, ri_integrity = None, ri_keepalive = None, ri_mode = None,
            ri_redirect = None, ri_referrer = None, ri_referrerPolicy = None, ri_signal = None,
            ri_window = None\<rparr>) new_Bodies
   = (Inl PackRequestImplement, new_Bodies)"
  by (rule packRequest_object_with_init_fails)

text \<open>
  Claim C10. A response that is not synthetic, whose body is \<open>null\<close> and whose
  \<open>content-length\<close> header is absent or does not parse to a number, is packed without
  failure; the packed response has none of \<open>bodyId\<close>, \<open>bodyText\<close>, \<open>bodyBytes\<close> set,
  and the registry is as it was.
\<close>

theorem packResponse_null_body_all_unset:
  assumes "rs_bodyInit response = None" and "rs_body response = None"
      and "Headers_get (rs_headers response) ''content-length'' = None
           \<or> (\<exists>v. Headers_get (rs_headers response) ''content-length'' = Some v \<and> parseInt v = None)"
  shows "packResponse M response b =
     (Inr \<lparr>ps_status = rs_status response, ps_headers = Headers_entries (rs_headers response),
           ps_bodyId = None, ps_bodyText = None, ps_bodyBytes = None\<rparr>, b)"
proof -
  have "contentLength response = None \<or> contentLength response = Some (- 1)"
    using assms(3) by (auto simp: contentLength_absent contentLength_present)
  then have "contentLength response = None
      \<or> (\<exists>n. contentLength response = Some n \<and> (n < 0 \<or> M < n))"
    by auto
  from packResponse_reference [OF assms(1) this, of b]
  show ?thesis by (simp add: assms(2) computeBodyId_None)
qed

theorem packResponse_null_body_all_unset_witness:
  "packResponse 1024 \<lparr>rs_status = 200, rs_headers = [(''Content-Length'', ''abc'')],
                       rs_body = None, rs_bodyInit = None\<rparr> new_Bodies
   = (Inr \<lparr>ps_status = 200, ps_headers = [(''content-length'', ''abc'')], ps_bodyId = None,
           ps_bodyText = None, ps_bodyBytes = None\<rparr>, new_Bodies)"
proof -
  have g: "Headers_get [(''Content-Length'', ''abc'')] ''content-length'' = Some ''abc''"
    by code_simp
  have p: "parseInt ''abc'' = None"
    by code_simp
  have e: "Headers_entries [(''Content-Length'', ''abc'')] = [(''content-length'', ''abc'')]"
    by code_simp
  show ?thesis
    using packResponse_null_body_all_unset [of "\<lparr>rs_status = 200, rs_headers = [(''Content-Length'', ''abc'')],
                       rs_body = None, rs_bodyInit = None\<rparr>" 1024 new_Bodies] g p e
    by simp
qed

subsection \<open>The stream of makeBodyResolverOverRpc\<close>

text \<open>
  The replies of the callee side are results of \<open>readBodyChunk\<close>: they carry a chunk or
  report the end, so they are well formed.
\<close>

lemma readBodyChunk_well_formed:
  "fst (readBodyChunk b i) = Inr r \<Longrightarrow> well_formed (ChannelReply r)"
proof (cases "remaining b i")
  case None
  then show "fst (readBodyChunk b i) = Inr r \<Longrightarrow> well_formed (ChannelReply r)"
    by (simp add: readBodyChunk_eq)
next
  case (Some src)
  then show "fst (readBodyChunk b i) = Inr r \<Longrightarrow> well_formed (ChannelReply r)"
    by (cases src) (auto simp: readBodyChunk_eq)
qed

lemmas stream_defs = callPullIfNeeded_def shouldCallPull_def canCloseOrEnqueue_def pull_send_def
  streamClose_def highWaterMark_def controllerError_def controllerEnqueue_def controllerClose_def
  pull_resume_def pullFulfilled_def

lemma inv_read: "stream_inv s R \<Longrightarrow> stream_inv (step s ReadRequest) (Suc R)"
  by (cases "state s"; cases "queue s"; cases "closeRequested s"; cases "pulling s"; cases "started s")
     (simp_all add: stream_inv_def readerRead_def stream_defs Let_def)

lemma inv_start: "stream_inv s R \<Longrightarrow> stream_inv (step s StartFulfilled) R"
  by (cases "state s"; cases "queue s"; cases "closeRequested s"; cases "pulling s"; cases "started s")
     (simp_all add: stream_inv_def stream_defs Let_def)

lemma inv_failure: "stream_inv s R \<Longrightarrow> stream_inv (step s ChannelFailure) R"
  by (cases "state s"; cases "queue s"; cases "closeRequested s"; cases "pulling s"; cases "started s")
     (simp_all add: stream_inv_def stream_defs Let_def)

lemma inv_reply:
  "stream_inv s R \<Longrightarrow> value r \<noteq> None \<or> done r \<Longrightarrow> stream_inv (step s (ChannelReply r)) R"
  by (cases "state s"; cases "queue s"; cases "closeRequested s"; cases "pulling s";
      cases "started s"; cases "pullAgain s"; cases "value r"; cases "done r";
      cases "readRequests s")
     (simp_all add: stream_inv_def stream_defs Let_def)

lemma inv_step:
  assumes "stream_inv s R" and "well_formed e"
  shows "stream_inv (step s e) (if e = ReadRequest then Suc R else R)"
proof (cases e)
  case StartFulfilled
  have "stream_inv (step s StartFulfilled) R" by (rule inv_start [OF assms(1)])
  then show ?thesis unfolding StartFulfilled by (simp del: step.simps)
next
  case ReadRequest
  have "stream_inv (step s ReadRequest) (Suc R)" by (rule inv_read [OF assms(1)])
  then show ?thesis unfolding ReadRequest by (simp del: step.simps)
next
  case (ChannelReply r)
  have "value r \<noteq> None \<or> done r" using assms(2) ChannelReply by simp
  then have "stream_inv (step s (ChannelReply r)) R" by (rule inv_reply [OF assms(1)])
  then show ?thesis unfolding ChannelReply by (simp del: step.simps)
next
  case ChannelFailure
  have "stream_inv (step s ChannelFailure) R" by (rule inv_failure [OF assms(1)])
  then show ?thesis unfolding ChannelFailure by (simp del: step.simps)
qed

lemma inv_make: "stream_inv (makeBodyResolverOverRpc i) 0"
  by (simp add: stream_inv_def makeBodyResolverOverRpc_def)

lemma reads_simps:
  "reads [] = 0"
  "reads (e # evs) = (if e = ReadRequest then Suc (reads evs) else reads evs)"
  by (simp_all add: reads_def)

lemma inv_run:
  "stream_inv s R \<Longrightarrow> \<forall>e \<in> set evs. well_formed e \<Longrightarrow>
   stream_inv (run_stream s evs) (R + reads evs)"
proof (induction evs arbitrary: s R)
  case Nil
  then show ?case by (simp add: run_stream_def reads_simps)
next
  case (Cons e evs)
  have "stream_inv (step s e) (if e = ReadRequest then Suc R else R)"
    using Cons.prems by (intro inv_step) simp_all
  from Cons.IH [OF this] Cons.prems(2)
  have "stream_inv (run_stream (step s e) evs) ((if e = ReadRequest then Suc R else R) + reads evs)"
    by simp
  moreover have "run_stream s (e # evs) = run_stream (step s e) evs"
    by (simp add: run_stream_def)
  moreover have "(if e = ReadRequest then Suc R else R) + reads evs = R + reads (e # evs)"
    by (simp add: reads_simps)
  ultimately show ?case by (simp only:)
qed

lemma same_target_snoc:
  "same_target s \<Longrightarrow> bodyId t = bodyId s \<Longrightarrow> sent t = sent s @ [bodyId s] \<Longrightarrow> same_target t"
  by (simp add: same_target_def)

lemma step_sent:
  "bodyId (step s e) = bodyId s \<and> (sent (step s e) = sent s \<or> sent (step s e) = sent s @ [bodyId s])"
proof (cases e)
  case StartFulfilled
  then show ?thesis by (simp add: stream_defs)
next
  case ReadRequest
  then show ?thesis
    by (cases "state s"; cases "queue s") (simp_all add: readerRead_def stream_defs Let_def)
next
  case (ChannelReply r)
  then show ?thesis
    by (cases "value r"; cases "done r") (simp_all add: stream_defs Let_def)
next
  case ChannelFailure
  then show ?thesis by (simp add: stream_defs)
qed

lemma same_target_step: "same_target s \<Longrightarrow> same_target (step s e)"
  using step_sent [of s e] same_target_snoc [of s "step s e"]
  by (auto simp: same_target_def)

lemma same_target_run: "same_target s \<Longrightarrow> same_target (run_stream s evs) \<and> bodyId (run_stream s evs) = bodyId s"
proof (induction evs arbitrary: s)
  case Nil
  then show ?case by (simp add: run_stream_def)
next
  case (Cons e evs)
  have "run_stream s (e # evs) = run_stream (step s e) evs"
    by (simp add: run_stream_def)
  with Cons.IH [OF same_target_step [OF Cons.prems, of e]] step_sent [of s e]
  show ?case by (simp only:)
qed

lemma delivered_chunks_append:
  "delivered_chunks (xs @ ys) = delivered_chunks xs @ delivered_chunks ys"
  by (induction xs rule: delivered_chunks.induct) (simp_all split: option.splits)

lemma delivered_chunks_dones:
  "delivered_chunks (replicate n (Fulfilled \<lparr>value = None, done = True\<rparr>)) = []"
  by (induction n) simp_all

lemma terminal_reply:
  assumes "stream_inv s R" and "pulling s" and "state s = Readable"
  shows "closeRequested (step s (ChannelReply \<lparr>value = v, done = True\<rparr>))
       \<and> chunks_out (step s (ChannelReply \<lparr>value = v, done = True\<rparr>))
           = chunks_out s @ (case v of None \<Rightarrow> [] | Some c \<Rightarrow> [c])
       \<and> (queue (step s (ChannelReply \<lparr>value = v, done = True\<rparr>)) = [] \<longrightarrow>
            state (step s (ChannelReply \<lparr>value = v, done = True\<rparr>)) = Closed)
       \<and> sent (step s (ChannelReply \<lparr>value = v, done = True\<rparr>)) = sent s"
  using assms
  by (cases "queue s"; cases "closeRequested s"; cases "started s"; cases "pullAgain s"; cases v;
      cases "readRequests s")
     (simp_all add: stream_inv_def stream_defs Let_def chunks_out_def delivered_chunks_append
        delivered_chunks_dones)

lemma start_inv_make: "start_inv (makeBodyResolverOverRpc i)"
  by (simp add: start_inv_def makeBodyResolverOverRpc_def)

lemma start_inv_step: "start_inv s \<Longrightarrow> start_inv (step s e)"
proof (cases e)
  case StartFulfilled
  assume "start_inv s"
  then show ?thesis unfolding StartFulfilled
    by (cases "started s") (simp_all add: start_inv_def stream_defs)
next
  case ReadRequest
  assume "start_inv s"
  then show ?thesis unfolding ReadRequest
    by (cases "state s"; cases "queue s"; cases "started s"; cases "closeRequested s"; cases "pulling s")
       (simp_all add: start_inv_def readerRead_def stream_defs Let_def)
next
  case (ChannelReply r)
  assume "start_inv s"
  then show ?thesis unfolding ChannelReply
    by (cases "state s"; cases "started s"; cases "closeRequested s"; cases "pulling s";
        cases "value r"; cases "done r"; cases "pullAgain s"; cases "readRequests s")
       (simp_all add: start_inv_def stream_defs Let_def)
next
  case ChannelFailure
  assume "start_inv s"
  then show ?thesis unfolding ChannelFailure
    by (cases "state s"; cases "started s"; cases "pulling s")
       (simp_all add: start_inv_def stream_defs)
qed

lemma run_stream_Cons: "run_stream s (e # evs) = run_stream (step s e) evs"
  by (simp add: run_stream_def)

lemma run_stream_Nil: "run_stream s [] = s"
  by (simp add: run_stream_def)

lemma start_inv_run: "start_inv s \<Longrightarrow> start_inv (run_stream s evs)"
proof (induction evs arbitrary: s)
  case Nil
  then show ?case by (simp only: run_stream_Nil)
next
  case (Cons e evs)
  from Cons.IH [OF start_inv_step [OF Cons.prems, of e]]
  show ?case by (simp only: run_stream_Cons)
qed

lemma started_step: "started (step s e) \<longleftrightarrow> started s \<or> e = StartFulfilled"
proof (cases e)
  case StartFulfilled
  then show ?thesis by (simp add: stream_defs)
next
  case ReadRequest
  then show ?thesis
    by (cases "state s"; cases "queue s") (simp_all add: readerRead_def stream_defs Let_def)
next
  case (ChannelReply r)
  then show ?thesis
    by (cases "value r"; cases "done r") (simp_all add: stream_defs Let_def)
next
  case ChannelFailure
  then show ?thesis by (simp add: stream_defs)
qed

lemma started_run: "started (run_stream s evs) \<longleftrightarrow> started s \<or> StartFulfilled \<in> set evs"
proof (induction evs arbitrary: s)
  case Nil
  then show ?case by (simp add: run_stream_Nil)
next
  case (Cons e evs)
  have "started (run_stream s (e # evs)) \<longleftrightarrow> started (step s e) \<or> StartFulfilled \<in> set evs"
    by (simp only: run_stream_Cons Cons.IH)
  then show ?case by (auto simp: started_step)
qed

lemma closed_step:
  "closeRequested s \<Longrightarrow> closeRequested (step s e) \<and> sent (step s e) = sent s"
proof (cases e)
  case StartFulfilled
  assume "closeRequested s"
  then show ?thesis unfolding StartFulfilled by (simp add: stream_defs)
next
  case ReadRequest
  assume "closeRequested s"
  then show ?thesis unfolding ReadRequest
    by (cases "state s"; cases "queue s") (simp_all add: readerRead_def stream_defs Let_def)
next
  case (ChannelReply r)
  assume "closeRequested s"
  then show ?thesis unfolding ChannelReply
    by (cases "value r"; cases "done r"; cases "state s") (simp_all add: stream_defs Let_def)
next
  case ChannelFailure
  assume "closeRequested s"
  then show ?thesis unfolding ChannelFailure by (simp add: stream_defs)
qed

lemma closed_run: "closeRequested s \<Longrightarrow> sent (run_stream s evs) = sent s"
proof (induction evs arbitrary: s)
  case Nil
  then show ?case by (simp only: run_stream_Nil)
next
  case (Cons e evs)
  from closed_step [OF Cons.prems, of e] Cons.IH [of "step s e"]
  show ?case by (simp only: run_stream_Cons)
qed

lemma step_sent_le: "length (sent (step s e)) \<le> length (sent s) + 1"
  using step_sent [of s e] by auto

lemma read_open:
  assumes "stream_inv s R" and "started s" and "state s = Readable" and "\<not> closeRequested s"
    and "\<not> pulling s"
  shows "sent (step s ReadRequest) = sent s @ [bodyId s]"
  using assms
  by (cases "queue s")
     (simp_all add: stream_inv_def readerRead_def stream_defs Let_def)

lemma read_in_flight:
  assumes "pulling s"
  shows "sent (step s ReadRequest) = sent s"
  using assms
  by (cases "state s"; cases "queue s")
     (simp_all add: readerRead_def stream_defs Let_def)

text \<open>
  Claim C7, as amended. Take the stream constructed on the caller side for a referenced
  body id, and any sequence of events (the start of the stream, local read requests,
  replies and failures of the channel) in which every reply carries a value or has
  \<open>done = true\<close>, as every result of \<open>readBodyChunk\<close> does. The stream sends no
  \<open>read-body-chunk\<close> request when it is constructed, and sends the first one as soon as
  it has started, before any local read request: once started it has sent at least one.
  Every request carries this body id, no event makes it send more than one, and the
  requests sent never exceed the local read requests by more than one. While the stream is
  open (started, readable, no \<open>done = true\<close> received) it has a request in flight or a
  chunk in its queue, and a local read request makes it send exactly one request when none
  is in flight, and none when one is. On a chunk result with \<open>done = true\<close> for the
  request in flight, the stream enqueues the value of the result if there is one, then
  closes itself (at once when nothing is left in its queue), and sends no request ever
  after.
\<close>

theorem rpc_stream_remote_calls:
  assumes wf: "\<forall>e \<in> set evs. well_formed e"
    and t: "t = run_stream (makeBodyResolverOverRpc i) evs"
  shows "sent (makeBodyResolverOverRpc i) = []
       \<and> sent (step (makeBodyResolverOverRpc i) StartFulfilled) = [i]
       \<and> (StartFulfilled \<in> set evs \<longrightarrow> sent t \<noteq> [])
       \<and> (\<exists>n. sent t = replicate n i \<and> n \<le> reads evs + 1)
       \<and> (\<forall>e. length (sent (step t e)) \<le> length (sent t) + 1)
       \<and> (started t \<and> state t = Readable \<and> \<not> closeRequested t \<longrightarrow>
            (pulling t \<or> queue t \<noteq> [])
          \<and> (\<not> pulling t \<longrightarrow> sent (step t ReadRequest) = sent t @ [i])
          \<and> (pulling t \<longrightarrow> sent (step t ReadRequest) = sent t))
       \<and> (pulling t \<and> state t = Readable \<longrightarrow>
            closeRequested (step t (ChannelReply \<lparr>value = v, done = True\<rparr>))
          \<and> chunks_out (step t (ChannelReply \<lparr>value = v, done = True\<rparr>))
              = chunks_out t @ (case v of None \<Rightarrow> [] | Some c \<Rightarrow> [c])
          \<and> (queue (step t (ChannelReply \<lparr>value = v, done = True\<rparr>)) = [] \<longrightarrow>
               state (step t (ChannelReply \<lparr>value = v, done = True\<rparr>)) = Closed)
          \<and> (\<forall>evs'. sent (run_stream (step t (ChannelReply \<lparr>value = v, done = True\<rparr>)) evs')
                = sent t))"
proof -
  have inv: "stream_inv t (reads evs)"
    using inv_run [OF inv_make wf, of i] by (simp add: t)
  have "same_target (makeBodyResolverOverRpc i)"
    by (simp add: same_target_def makeBodyResolverOverRpc_def)
  from same_target_run [OF this, of evs]
  have tgt: "\<forall>x \<in> set (sent t). x = i" and id: "bodyId t = i"
    by (auto simp: same_target_def makeBodyResolverOverRpc_def t)
  from tgt have "sent t = replicate (length (sent t)) i"
    by (simp add: replicate_length_same)
  moreover have "length (sent t) \<le> reads evs + 1"
    using inv by (simp add: stream_inv_def)
  ultimately have 4: "\<exists>n. sent t = replicate n i \<and> n \<le> reads evs + 1"
    by blast
  have 1: "sent (makeBodyResolverOverRpc i) = []"
    by (simp add: makeBodyResolverOverRpc_def)
  have 2: "sent (step (makeBodyResolverOverRpc i) StartFulfilled) = [i]"
    by (simp add: makeBodyResolverOverRpc_def stream_defs)
  have 3: "sent t \<noteq> []" if "StartFulfilled \<in> set evs"
  proof -
    have "started t" using that by (simp add: t started_run)
    moreover have "start_inv t" unfolding t by (rule start_inv_run [OF start_inv_make])
    ultimately show ?thesis by (simp add: start_inv_def)
  qed
  have 5: "\<forall>e. length (sent (step t e)) \<le> length (sent t) + 1"
    using step_sent_le [of t] by blast
  have 6: "(pulling t \<or> queue t \<noteq> [])
          \<and> (\<not> pulling t \<longrightarrow> sent (step t ReadRequest) = sent t @ [i])
          \<and> (pulling t \<longrightarrow> sent (step t ReadRequest) = sent t)"
    if o: "started t \<and> state t = Readable \<and> \<not> closeRequested t"
  proof -
    have a: "pulling t \<or> queue t \<noteq> []"
      using inv o by (simp add: stream_inv_def)
    have b: "sent (step t ReadRequest) = sent t @ [i]" if "\<not> pulling t"
      using read_open [OF inv _ _ _ that] o by (simp add: id)
    have c: "sent (step t ReadRequest) = sent t" if "pulling t"
      by (rule read_in_flight [OF that])
    show ?thesis using a b c by blast
  qed
  have 7: "closeRequested (step t (ChannelReply \<lparr>value = v, done = True\<rparr>))
          \<and> chunks_out (step t (ChannelReply \<lparr>value = v, done = True\<rparr>))
              = chunks_out t @ (case v of None \<Rightarrow> [] | Some c \<Rightarrow> [c])
          \<and> (queue (step t (ChannelReply \<lparr>value = v, done = True\<rparr>)) = [] \<longrightarrow>
               state (step t (ChannelReply \<lparr>value = v, done = True\<rparr>)) = Closed)
          \<and> (\<forall>evs'. sent (run_stream (step t (ChannelReply \<lparr>value = v, done = True\<rparr>)) evs')
                = sent t)"
    if p: "pulling t \<and> state t = Readable"
  proof -
    note tr = terminal_reply [OF inv, of v]
    have cr: "closeRequested (step t (ChannelReply \<lparr>value = v, done = True\<rparr>))"
      and st: "sent (step t (ChannelReply \<lparr>value = v, done = True\<rparr>)) = sent t"
      using tr p by simp_all
    have "sent (run_stream (step t (ChannelReply \<lparr>value = v, done = True\<rparr>)) evs') = sent t" for evs'
      using closed_run [OF cr, of evs'] st by (simp only:)
    then show ?thesis using tr p by blast
  qed
  show ?thesis using 1 2 3 4 5 6 7 by blast
qed

theorem rpc_stream_remote_calls_witness:
  "reads [StartFulfilled, ChannelReply \<lparr>value = Some [1], done = False\<rparr>, ReadRequest, ReadRequest,
          ChannelReply \<lparr>value = Some [2], done = False\<rparr>] = 2
   \<and> sent (run_stream (makeBodyResolverOverRpc 7)
        [StartFulfilled, ChannelReply \<lparr>value = Some [1], done = False\<rparr>, ReadRequest, ReadRequest,
         ChannelReply \<lparr>value = Some [2], done = False\<rparr>]) = [7, 7, 7]
   \<and> sent (step (run_stream (makeBodyResolverOverRpc 7)
        [StartFulfilled, ChannelReply \<lparr>value = Some [1], done = False\<rparr>, ReadRequest, ReadRequest,
         ChannelReply \<lparr>value = Some [2], done = False\<rparr>]) ReadRequest) = [7, 7, 7]
   \<and> chunks_out (step (run_stream (makeBodyResolverOverRpc 7)
        [StartFulfilled, ChannelReply \<lparr>value = Some [1], done = False\<rparr>, ReadRequest, ReadRequest,
         ChannelReply \<lparr>value = Some [2], done = False\<rparr>])
        (ChannelReply \<lparr>value = Some [9], done = True\<rparr>)) = [[1], [2], [9]]
   \<and> closeRequested (step (run_stream (makeBodyResolverOverRpc 7)
        [StartFulfilled, ChannelReply \<lparr>value = Some [1], done = False\<rparr>, ReadRequest, ReadRequest,
         ChannelReply \<lparr>value = Some [2], done = False\<rparr>])
        (ChannelReply \<lparr>value = Some [9], done = True\<rparr>))
   \<and> sent (run_stream (step (run_stream (makeBodyResolverOverRpc 7)
        [StartFulfilled, ChannelReply \<lparr>value = Some [1], done = False\<rparr>, ReadRequest, ReadRequest,
         ChannelReply \<lparr>value = Some [2], done = False\<rparr>])
        (ChannelReply \<lparr>value = Some [9], done = True\<rparr>)) [ReadRequest, ReadRequest]) = [7, 7, 7]"
proof -
  let ?evs = "[StartFulfilled, ChannelReply \<lparr>value = Some [1], done = False\<rparr>, ReadRequest,
      ReadRequest, ChannelReply \<lparr>value = Some [2], done = False\<rparr>]"
  let ?t = "\<lparr>bodyId = 7, sent = [7, 7, 7], state = Readable, queue = [], started = True,
      closeRequested = False, pulling = True, pullAgain = False, readRequests = 0,
      delivered = [Fulfilled \<lparr>value = Some [1], done = False\<rparr>,
                   Fulfilled \<lparr>value = Some [2], done = False\<rparr>]\<rparr>"
  have wf: "\<forall>e \<in> set ?evs. well_formed e"
    by simp
  have t: "?t = run_stream (makeBodyResolverOverRpc 7) ?evs"
    by (simp add: run_stream_def makeBodyResolverOverRpc_def readerRead_def stream_defs)
  have c: "chunks_out ?t = [[1], [2]]"
    by (simp add: chunks_out_def)
  have r: "reads ?evs = 2"
    by (simp add: reads_def)
  from rpc_stream_remote_calls [OF wf t, of "Some [9]"]
  have "sent (step ?t ReadRequest) = sent ?t
      \<and> closeRequested (step ?t (ChannelReply \<lparr>value = Some [9], done = True\<rparr>))
      \<and> chunks_out (step ?t (ChannelReply \<lparr>value = Some [9], done = True\<rparr>)) = chunks_out ?t @ [[9]]
      \<and> sent (run_stream (step ?t (ChannelReply \<lparr>value = Some [9], done = True\<rparr>))
            [ReadRequest, ReadRequest]) = sent ?t"
    by (simp del: step.simps)
  then show ?thesis
    unfolding t [symmetric] using r c by (simp del: step.simps)
qed

text \<open>
  The claim as it was stated has no request sent before the local consumer asks for data.
  With the default high-water mark of 1 the stream calls \<open>pull\<close> as soon as it has
  started: one request is sent and no read has been made.
\<close>

theorem rpc_stream_call_before_any_read:
  "reads [StartFulfilled] = 0
   \<and> sent (run_stream (makeBodyResolverOverRpc 7) [StartFulfilled]) = [7]"
  by (simp add: reads_def run_stream_def makeBodyResolverOverRpc_def stream_defs)

end
